theory Spec2Isabelle
  imports
    Complex_Main
    "HOL-Library.Char_ord"
    "HOL-Library.List_Lexorder"
    "HOL-Library.Product_Lexorder"
begin

section \<open>The data frame\<close>

text \<open>
  The function under study is \<^verbatim>\<open>bias_analysis(df, sensitive, target)\<close>
  of \<^verbatim>\<open>app.py\<close> (lines 28 to 73). It works on a pandas data frame,
  so the part of pandas it calls is modelled first, operation by operation.

  A cell of a numeric column is a float: a finite number, an infinity, or NaN, which is
  also how pandas marks a missing cell. A cell of an object column is a text or missing.
  A boolean column counts as numeric (as for pandas) with \<open>True\<close> as 1 and
  \<open>False\<close> as 0.
\<close>

subsection \<open>Floats\<close>

text \<open>
  A float that is a number is finite or one of the two infinities; a float is such a
  number or NaN (\<open>None\<close>). A finite float stands for the rational it denotes.
  Rounding to the nearest binary64 number is not modelled, and neither is the sign of
  zero; overflow is: a finite result at or beyond the limit of binary64 becomes the
  infinity of its sign. The policy constants 0.7, 0.2, 0.1 and 0.8 are the decimal
  fractions they denote.
\<close>

datatype ext = NInf | Fin rat | PInf

instantiation ext :: linorder
begin

fun less_eq_ext :: "ext \<Rightarrow> ext \<Rightarrow> bool" where
  "less_eq_ext NInf b = True"
| "less_eq_ext a PInf = True"
| "less_eq_ext (Fin x) (Fin y) = (x \<le> y)"
| "less_eq_ext a b = False"

definition less_ext :: "ext \<Rightarrow> ext \<Rightarrow> bool" where
  "less_ext a b = (a \<le> b \<and> \<not> b \<le> a)"

instance
proof
  fix x y z :: ext
  show "(x < y) = (x \<le> y \<and> \<not> y \<le> x)"
    by (simp add: less_ext_def)
  show "x \<le> x"
    by (cases x) simp_all
  show "x \<le> y \<Longrightarrow> y \<le> z \<Longrightarrow> x \<le> z"
    by (cases x; cases y; cases z) simp_all
  show "x \<le> y \<Longrightarrow> y \<le> x \<Longrightarrow> x = y"
    by (cases x; cases y) simp_all
  show "x \<le> y \<or> y \<le> x"
    by (cases x; cases y) auto
qed

end

type_synonym float = "ext option"

text \<open>The least magnitude that rounds to an infinity: \<open>2^1024 - 2^970\<close>.\<close>

definition overflow_limit :: rat where
  "overflow_limit = 2 ^ 1024 - 2 ^ 970"

definition round_range :: "rat \<Rightarrow> ext" where
  "round_range x =
     (if overflow_limit \<le> x then PInf else if x \<le> - overflow_limit then NInf else Fin x)"

text \<open>Sum, difference and quotient: NaN in gives NaN out, and so do
  \<open>inf - inf\<close>, \<open>inf / inf\<close> and \<open>0 / 0\<close>.\<close>

fun fadd :: "float \<Rightarrow> float \<Rightarrow> float" where
  "fadd (Some (Fin x)) (Some (Fin y)) = Some (round_range (x + y))"
| "fadd (Some PInf) (Some NInf) = None"
| "fadd (Some NInf) (Some PInf) = None"
| "fadd (Some PInf) (Some b) = Some PInf"
| "fadd (Some a) (Some PInf) = Some PInf"
| "fadd (Some NInf) (Some b) = Some NInf"
| "fadd (Some a) (Some NInf) = Some NInf"
| "fadd a b = None"

fun fsub :: "float \<Rightarrow> float \<Rightarrow> float" where
  "fsub (Some (Fin x)) (Some (Fin y)) = Some (round_range (x - y))"
| "fsub (Some PInf) (Some PInf) = None"
| "fsub (Some NInf) (Some NInf) = None"
| "fsub (Some PInf) (Some b) = Some PInf"
| "fsub (Some a) (Some NInf) = Some PInf"
| "fsub (Some NInf) (Some b) = Some NInf"
| "fsub (Some a) (Some PInf) = Some NInf"
| "fsub a b = None"

fun fdiv :: "float \<Rightarrow> float \<Rightarrow> float" where
  "fdiv (Some (Fin x)) (Some (Fin y)) =
     (if y = 0 then (if x = 0 then None else if 0 < x then Some PInf else Some NInf)
      else Some (round_range (x / y)))"
| "fdiv (Some PInf) (Some (Fin y)) = (if 0 \<le> y then Some PInf else Some NInf)"
| "fdiv (Some NInf) (Some (Fin y)) = (if 0 \<le> y then Some NInf else Some PInf)"
| "fdiv (Some (Fin x)) (Some b) = Some (Fin 0)"
| "fdiv a b = None"

text \<open>A comparison with NaN is false.\<close>

fun fgt :: "float \<Rightarrow> rat \<Rightarrow> bool" where
  "fgt (Some x) c = (Fin c < x)"
| "fgt None c = False"

fun flt :: "float \<Rightarrow> rat \<Rightarrow> bool" where
  "flt (Some x) c = (x < Fin c)"
| "flt None c = False"

subsection \<open>Columns and frames\<close>

datatype column = Numeric "float list" | Object "string option list"

text \<open>The value of a cell as a group label: what \<^verbatim>\<open>value_counts\<close> and
  \<^verbatim>\<open>groupby\<close> use as key.\<close>

datatype key = KNum ext | KStr string

record dataframe =
  nrows :: nat
  cols :: "(string \<times> column) list"

datatype error = KeyError string | ValueError | TypeError

fun col_len :: "column \<Rightarrow> nat" where
  "col_len (Numeric xs) = length xs"
| "col_len (Object xs) = length xs"

text \<open>Every column has as many cells as the frame has rows.\<close>

definition wf_df :: "dataframe \<Rightarrow> bool" where
  "wf_df df = list_all (\<lambda>(n, c). col_len c = nrows df) (cols df)"

text \<open>\<^verbatim>\<open>df[name]\<close>: the column, or \<^verbatim>\<open>KeyError\<close>.\<close>

definition get_col :: "dataframe \<Rightarrow> string \<Rightarrow> error + column" where
  "get_col df name =
     (case map_of (cols df) name of None \<Rightarrow> Inl (KeyError name) | Some c \<Rightarrow> Inr c)"

text \<open>\<^verbatim>\<open>df[name] = values\<close>: replaces the column of that name where it stands, or
  appends a new column when there is none. It changes the frame the caller holds.\<close>

definition set_col :: "dataframe \<Rightarrow> string \<Rightarrow> column \<Rightarrow> dataframe" where
  "set_col df name c =
     (if name \<in> fst ` set (cols df)
      then df\<lparr>cols := map (\<lambda>(n, c0). if n = name then (n, c) else (n, c0)) (cols df)\<rparr>
      else df\<lparr>cols := cols df @ [(name, c)]\<rparr>)"

text \<open>\<^verbatim>\<open>pd.api.types.is_numeric_dtype\<close>\<close>

fun is_numeric_dtype :: "column \<Rightarrow> bool" where
  "is_numeric_dtype (Numeric xs) = True"
| "is_numeric_dtype (Object xs) = False"

fun keys_of :: "column \<Rightarrow> key option list" where
  "keys_of (Numeric xs) = map (map_option KNum) xs"
| "keys_of (Object xs) = map (map_option KStr) xs"

text \<open>The cells that are present, in row order (missing cells dropped).\<close>

fun present :: "'a option list \<Rightarrow> 'a list" where
  "present [] = []"
| "present (None # xs) = present xs"
| "present (Some x # xs) = x # present xs"

subsection \<open>factorize\<close>

text \<open>
  \<^verbatim>\<open>pd.factorize(values)[0]\<close>: one pass over the cells with the
  table of the distinct values seen so far; a value already in the table gets its
  position there, a new value is appended and gets the next code, and a missing cell
  gets the sentinel -1.
\<close>

fun index_of :: "'a \<Rightarrow> 'a list \<Rightarrow> nat" where
  "index_of x [] = 0"
| "index_of x (y # ys) = (if x = y then 0 else Suc (index_of x ys))"

fun factorize_loop :: "'a list \<Rightarrow> 'a option list \<Rightarrow> int list" where
  "factorize_loop seen [] = []"
| "factorize_loop seen (None # xs) = (- 1) # factorize_loop seen xs"
| "factorize_loop seen (Some x # xs) =
     (if x \<in> set seen then int (index_of x seen) # factorize_loop seen xs
      else int (length seen) # factorize_loop (seen @ [x]) xs)"

definition factorize :: "'a option list \<Rightarrow> int list" where
  "factorize xs = factorize_loop [] xs"

text \<open>The distinct values that stand before the first cell holding \<open>v\<close>.\<close>

abbreviation seen_before :: "'a \<Rightarrow> 'a option list \<Rightarrow> 'a set" where
  "seen_before v xs \<equiv> set (present (takeWhile (\<lambda>c. c \<noteq> Some v) xs))"

fun factorize_column :: "column \<Rightarrow> int list" where
  "factorize_column (Numeric xs) = factorize xs"
| "factorize_column (Object xs) = factorize xs"

text \<open>The codes as the new (integer) column.\<close>

definition codes_column :: "int list \<Rightarrow> column" where
  "codes_column cs = Numeric (map (\<lambda>c. Some (Fin (of_int c))) cs)"

subsection \<open>value_counts, groupby, mean, max, min, idxmax\<close>

text \<open>The distinct values in first-seen order (the hash table of pandas).\<close>

fun uniques_loop :: "'a list \<Rightarrow> 'a list \<Rightarrow> 'a list" where
  "uniques_loop seen [] = seen"
| "uniques_loop seen (x # xs) =
     (if x \<in> set seen then uniques_loop seen xs else uniques_loop (seen @ [x]) xs)"

definition uniques :: "'a list \<Rightarrow> 'a list" where
  "uniques xs = uniques_loop [] xs"

text \<open>
  \<^verbatim>\<open>Series.value_counts(normalize=True)\<close>: missing cells are
  dropped, each distinct value is counted, the entries are sorted by falling count, and
  each count is divided by the total. The order among equal counts is the first-seen
  order here (a stable sort); pandas leaves it open.
\<close>

definition value_counts :: "key option list \<Rightarrow> (key \<times> rat) list" where
  "value_counts ks =
     (let ps = present ks;
          counts = map (\<lambda>k. (k, count_list ps k)) (uniques ps);
          sorted_counts = sort_key (\<lambda>(k, c). - int c) counts
      in map (\<lambda>(k, c). (k, of_nat c / of_nat (length ps))) sorted_counts)"

text \<open>\<^verbatim>\<open>Series.idxmax()\<close>: the label of the first largest entry;
  \<^verbatim>\<open>ValueError\<close> on an empty series.\<close>

fun idxmax_loop :: "key \<Rightarrow> rat \<Rightarrow> (key \<times> rat) list \<Rightarrow> key" where
  "idxmax_loop k v [] = k"
| "idxmax_loop k v ((k', v') # xs) =
     (if v < v' then idxmax_loop k' v' xs else idxmax_loop k v xs)"

fun idxmax :: "(key \<times> rat) list \<Rightarrow> error + key" where
  "idxmax [] = Inl ValueError"
| "idxmax ((k, v) # xs) = Inr (idxmax_loop k v xs)"

text \<open>\<^verbatim>\<open>Series.max()\<close> and \<^verbatim>\<open>Series.min()\<close> skip missing entries and give NaN
  when nothing is left.\<close>

fun max_list :: "'a::linorder \<Rightarrow> 'a list \<Rightarrow> 'a" where
  "max_list m [] = m"
| "max_list m (x # xs) = max_list (max m x) xs"

fun min_list :: "'a::linorder \<Rightarrow> 'a list \<Rightarrow> 'a" where
  "min_list m [] = m"
| "min_list m (x # xs) = min_list (min m x) xs"

definition series_max :: "float list \<Rightarrow> float" where
  "series_max vs = (case present vs of [] \<Rightarrow> None | x # xs \<Rightarrow> Some (max_list x xs))"

definition series_min :: "float list \<Rightarrow> float" where
  "series_min vs = (case present vs of [] \<Rightarrow> None | x # xs \<Rightarrow> Some (min_list x xs))"

text \<open>
  The mean of a group skips missing cells: the cells that are left are summed up from
  0.0, one after the other, and the sum is divided by their number; the mean is NaN when
  no cell is left. The sum overflows to an infinity when it leaves the range.
\<close>

definition mean :: "float list \<Rightarrow> float" where
  "mean vs =
     (let ps = present vs
      in if ps = [] then None
         else fdiv (foldl fadd (Some (Fin 0)) (map Some ps)) (Some (Fin (of_nat (length ps)))))"

text \<open>The order of the group labels in the result of \<^verbatim>\<open>groupby\<close>: numbers by value,
  texts by code point.\<close>

fun ext_ord :: "ext \<Rightarrow> int \<times> rat" where
  "ext_ord NInf = (- 1, 0)"
| "ext_ord (Fin x) = (0, x)"
| "ext_ord PInf = (1, 0)"

fun key_ord :: "key \<Rightarrow> nat \<times> (int \<times> rat) \<times> string" where
  "key_ord (KNum r) = (0, ext_ord r, [])"
| "key_ord (KStr s) = (1, (0, 0), s)"

text \<open>
  \<^verbatim>\<open>df.groupby(sensitive)[target].mean()\<close>: rows whose label is
  missing are dropped, the remaining rows are grouped by label, the groups are sorted by
  label, and each group gives the mean of its target cells. The mean of an object column
  is a \<^verbatim>\<open>TypeError\<close>.
\<close>

fun labelled_rows :: "key option list \<Rightarrow> float list \<Rightarrow> (key \<times> float) list" where
  "labelled_rows (Some k # ks) (v # vs) = (k, v) # labelled_rows ks vs"
| "labelled_rows (None # ks) (v # vs) = labelled_rows ks vs"
| "labelled_rows _ _ = []"

definition group_cells :: "(key \<times> float) list \<Rightarrow> key \<Rightarrow> float list" where
  "group_cells rs k = map snd (filter (\<lambda>(k', v). k' = k) rs)"

definition groupby_mean :: "column \<Rightarrow> column \<Rightarrow> error + (key \<times> float) list" where
  "groupby_mean sc tc =
     (case tc of
        Object _ \<Rightarrow> Inl TypeError
      | Numeric vs \<Rightarrow>
          (let rs = labelled_rows (keys_of sc) vs;
               labels = sort_key key_ord (uniques (map fst rs))
           in Inr (map (\<lambda>k. (k, mean (group_cells rs k))) labels)))"

section \<open>The analysis\<close>

record report =
  target_encoded :: bool
  rows :: nat
  columns :: nat
  rep :: "(key \<times> rat) list"
  label_dist :: "(key \<times> float) list"
  rep_issue :: bool
  label_issue :: bool
  fairness_issue :: bool
  traffic :: string
  dominant_group :: key
  dominant_ratio :: float
  spd :: float
  di :: float

text \<open>
  Lines 32 to 36: a target column that is not numeric is replaced, in the frame the caller
  passed, by its codes. The result is the frame after the assignment and the value of
  \<^verbatim>\<open>report["target_encoded"]\<close>.
\<close>

definition encode_target :: "dataframe \<Rightarrow> string \<Rightarrow> column \<Rightarrow> dataframe \<times> bool" where
  "encode_target df target tc =
     (if \<not> is_numeric_dtype tc
      then (set_col df target (codes_column (factorize_column tc)), True)
      else (df, False))"

text \<open>Lines 57 and 58.\<close>

definition issues_count :: "bool \<Rightarrow> bool \<Rightarrow> bool \<Rightarrow> nat" where
  "issues_count a b c = sum_list (map of_bool [a, b, c])"

definition traffic_of :: "nat \<Rightarrow> string" where
  "traffic_of issues =
     (if issues = 0 then ''green'' else if issues = 1 then ''yellow'' else ''red'')"

text \<open>
  Lines 41 to 73, on the frame as it is after lines 32 to 36. An exception leaves through
  \<open>Inl\<close> and no report is returned.
\<close>

definition analyse_frame :: "dataframe \<Rightarrow> string \<Rightarrow> string \<Rightarrow> bool \<Rightarrow> error + report" where
  "analyse_frame df sensitive target enc =
     (case get_col df sensitive of
        Inl e \<Rightarrow> Inl e
      | Inr sc \<Rightarrow>
          (let rep_s = value_counts (keys_of sc) in
           case idxmax rep_s of
             Inl e \<Rightarrow> Inl e
           | Inr dominant \<Rightarrow>
               (let ratio = series_max (map (\<lambda>(k, v). Some (Fin v)) rep_s);
                    rep_i = fgt ratio (7 / 10) in
                case get_col df target of
                  Inl e \<Rightarrow> Inl e
                | Inr tc \<Rightarrow>
                    (case groupby_mean sc tc of
                       Inl e \<Rightarrow> Inl e
                     | Inr ldist \<Rightarrow>
                         (let means = map snd ldist;
                              diff = fsub (series_max means) (series_min means);
                              label_i = fgt diff (2 / 10);
                              spd_v = diff;
                              di_v = (if fgt (series_max means) 0
                                      then fdiv (series_min means) (series_max means)
                                      else Some (Fin 1));
                              fairness_i = (fgt spd_v (1 / 10) \<or> flt di_v (8 / 10));
                              issues = issues_count rep_i label_i fairness_i
                          in Inr \<lparr>target_encoded = enc,
                                   rows = nrows df,
                                   columns = length (cols df),
                                   rep = rep_s,
                                   label_dist = ldist,
                                   rep_issue = rep_i,
                                   label_issue = label_i,
                                   fairness_issue = fairness_i,
                                   traffic = traffic_of issues,
                                   dominant_group = dominant,
                                   dominant_ratio = ratio,
                                   spd = spd_v,
                                   di = di_v\<rparr>)))))"

text \<open>
  \<^verbatim>\<open>bias_analysis\<close>: the frame the caller holds after the call,
  and the outcome of the call (an exception or the report).
\<close>

definition bias_analysis ::
  "dataframe \<Rightarrow> string \<Rightarrow> string \<Rightarrow> dataframe \<times> (error + report)" where
  "bias_analysis df sensitive target =
     (case get_col df target of
        Inl e \<Rightarrow> (df, Inl e)
      | Inr tc \<Rightarrow>
          (let (df1, enc) = encode_target df target tc
           in (df1, analyse_frame df1 sensitive target enc)))"

text \<open>Lines 121 to 126: how the caller reads the colour as a risk level.\<close>

datatype risk = LOW | MODERATE | HIGH

definition risk_level :: "report \<Rightarrow> risk" where
  "risk_level r =
     (if traffic r = ''green'' then LOW
      else if traffic r = ''yellow'' then MODERATE
      else HIGH)"

section \<open>Example frames\<close>

text \<open>Two groups and a target of text labels.\<close>

abbreviation frame_text :: dataframe where
  "frame_text \<equiv>
     \<lparr>nrows = 3,
      cols = [(''group'', Object [Some ''a'', Some ''b'', Some ''a'']),
              (''label'', Object [Some ''yes'', Some ''no'', Some ''yes''])]\<rparr>"

text \<open>A header and no rows, as \<^verbatim>\<open>read_csv\<close> gives it.\<close>

abbreviation frame_empty :: dataframe where
  "frame_empty \<equiv> \<lparr>nrows = 0, cols = [(''group'', Object []), (''label'', Object [])]\<rparr>"

text \<open>Two groups and a numeric target.\<close>

abbreviation frame_numeric :: dataframe where
  "frame_numeric \<equiv>
     \<lparr>nrows = 4,
      cols = [(''group'', Object [Some ''a'', Some ''a'', Some ''b'', Some ''b'']),
              (''label'', Numeric [Some (Fin 1), Some (Fin 0), Some (Fin 1), Some (Fin 1)])]\<rparr>"

text \<open>Two groups, and a numeric target whose cells are all missing.\<close>

abbreviation frame_no_outcome :: dataframe where
  "frame_no_outcome \<equiv>
     \<lparr>nrows = 2,
      cols = [(''group'', Object [Some ''a'', Some ''b'']),
              (''label'', Numeric [None, None])]\<rparr>"

text \<open>One group, with a numeric target and with a target whose cells are all missing.\<close>

abbreviation frame_one_group :: dataframe where
  "frame_one_group \<equiv>
     \<lparr>nrows = 2,
      cols = [(''group'', Object [Some ''a'', Some ''a'']),
              (''label'', Numeric [Some (Fin 1), Some (Fin 0)])]\<rparr>"

abbreviation frame_one_group_no_outcome :: dataframe where
  "frame_one_group_no_outcome \<equiv>
     \<lparr>nrows = 2,
      cols = [(''group'', Object [Some ''a'', Some ''a'']),
              (''label'', Numeric [None, None])]\<rparr>"

text \<open>One group with two target cells of \<open>1e308\<close>, whose sum overflows; and two
  groups with an infinite target cell each (\<^verbatim>\<open>read_csv\<close> reads
  \<^verbatim>\<open>inf\<close> as one).\<close>

abbreviation frame_one_group_overflow :: dataframe where
  "frame_one_group_overflow \<equiv>
     \<lparr>nrows = 2,
      cols = [(''group'', Object [Some ''a'', Some ''a'']),
              (''label'', Numeric [Some (Fin (10 ^ 308)), Some (Fin (10 ^ 308))])]\<rparr>"

abbreviation frame_infinite :: dataframe where
  "frame_infinite \<equiv>
     \<lparr>nrows = 2,
      cols = [(''group'', Object [Some ''a'', Some ''b'']),
              (''label'', Numeric [Some PInf, Some PInf])]\<rparr>"

section \<open>Properties of the column operations\<close>

subsection \<open>Distinct values, counts and proportions\<close>

lemma set_uniques_loop: "set (uniques_loop seen xs) = set seen \<union> set xs"
  by (induction seen xs rule: uniques_loop.induct) auto

lemma distinct_uniques_loop: "distinct seen \<Longrightarrow> distinct (uniques_loop seen xs)"
  by (induction seen xs rule: uniques_loop.induct) auto

lemma set_uniques: "set (uniques xs) = set xs"
  by (simp add: uniques_def set_uniques_loop)

lemma distinct_uniques: "distinct (uniques xs)"
  by (simp add: uniques_def distinct_uniques_loop)

lemma sum_list_insort_key: "sum_list (map g (insort_key f x xs)) = g x + sum_list (map g xs)"
  for g :: "'a \<Rightarrow> 'b::comm_monoid_add"
  by (induction xs) (auto simp: add.left_commute)

lemma sum_list_sort_key: "sum_list (map g (sort_key f xs)) = sum_list (map g xs)"
  for g :: "'a \<Rightarrow> 'b::comm_monoid_add"
  by (induction xs) (auto simp: sum_list_insort_key)

lemma sum_counts_uniques: "sum_list (map (count_list ps) (uniques ps)) = length ps"
proof -
  have "sum_list (map (count_list ps) (uniques ps)) = sum (count_list ps) (set (uniques ps))"
    by (rule sum_list_distinct_conv_sum_set) (rule distinct_uniques)
  also have "\<dots> = length ps"
    by (simp add: set_uniques sum_count_set)
  finally show ?thesis .
qed

lemma sum_list_of_nat_divide:
  "sum_list (map (\<lambda>k. of_nat (f k) / n) xs) = (of_nat (sum_list (map f xs)) / n :: rat)"
proof (induction xs)
  case Nil
  show ?case by simp
next
  case (Cons x xs)
  have "sum_list (map (\<lambda>k. of_nat (f k) / n) (x # xs))
      = of_nat (f x) / n + sum_list (map (\<lambda>k. of_nat (f k) / n) xs)" by simp
  also have "\<dots> = of_nat (f x) / n + of_nat (sum_list (map f xs)) / n"
    by (simp only: Cons.IH)
  also have "\<dots> = (of_nat (f x) + of_nat (sum_list (map f xs))) / n"
    by (simp only: add_divide_distrib)
  also have "\<dots> = of_nat (sum_list (map f (x # xs))) / n"
    by simp
  finally show ?case .
qed

lemma map_fst_value_counts:
  "set (map fst (value_counts ks)) = set (present ks)"
  by (force simp: value_counts_def Let_def set_uniques)

lemma distinct_map_insort_key:
  "distinct (map g (insort_key f x xs)) \<longleftrightarrow> g x \<notin> g ` set xs \<and> distinct (map g xs)"
  by (induction xs) (auto simp: set_insort_key)

lemma distinct_map_sort_key: "distinct (map g (sort_key f xs)) = distinct (map g xs)"
  by (induction xs) (simp_all add: distinct_map_insort_key)

lemma map_fst_normalize: "map fst (map (\<lambda>(k, c). (k, h c)) xs) = map fst xs"
  by (induction xs) auto

lemma distinct_value_counts: "distinct (map fst (value_counts ks))"
proof -
  let ?ps = "present ks"
  let ?cs = "map (\<lambda>k. (k, count_list ?ps k)) (uniques ?ps)"
  have "map fst ?cs = uniques ?ps"
    by (simp add: comp_def)
  then have "distinct (map fst ?cs)"
    by (simp only: distinct_uniques)
  then have "distinct (map fst (sort_key (\<lambda>(k, c). - int c) ?cs))"
    by (simp only: distinct_map_sort_key)
  then show ?thesis
    by (simp only: value_counts_def Let_def map_fst_normalize)
qed

lemma sum_value_counts:
  assumes "present ks \<noteq> []"
  shows "sum_list (map snd (value_counts ks)) = 1"
proof -
  let ?ps = "present ks"
  let ?n = "of_nat (length ?ps) :: rat"
  let ?cs = "map (\<lambda>k. (k, count_list ?ps k)) (uniques ?ps)"
  have n: "?n \<noteq> 0" using assms by simp
  have "sum_list (map snd (value_counts ks))
      = sum_list (map (\<lambda>(k, c). of_nat c / ?n) (sort_key (\<lambda>(k, c). - int c) ?cs))"
    by (simp add: value_counts_def Let_def comp_def case_prod_unfold)
  also have "\<dots> = sum_list (map (\<lambda>(k, c). of_nat c / ?n) ?cs)"
    by (rule sum_list_sort_key)
  also have "\<dots> = sum_list (map (\<lambda>k. of_nat (count_list ?ps k) / ?n) (uniques ?ps))"
    by (simp add: comp_def)
  also have "\<dots> = of_nat (sum_list (map (count_list ?ps) (uniques ?ps))) / ?n"
    by (rule sum_list_of_nat_divide)
  also have "\<dots> = ?n / ?n"
    by (simp only: sum_counts_uniques)
  also have "\<dots> = 1"
    using n by simp
  finally show ?thesis .
qed

lemma value_counts_Nil_iff: "value_counts ks = [] \<longleftrightarrow> present ks = []"
  using map_fst_value_counts [of ks] by (metis list.map_disc_iff set_empty)

subsection \<open>The first largest label, the greatest and the least entry\<close>

lemma idxmax_Inr: "xs \<noteq> [] \<Longrightarrow> \<exists>k. idxmax xs = Inr k"
  by (cases xs) auto

lemma max_list_Max: "max_list m xs = Max (set (m # xs))"
proof (induction xs arbitrary: m)
  case Nil
  then show ?case by simp
next
  case (Cons x xs)
  have "Max (insert m (insert x (set xs))) = Max (insert (max m x) (set xs))"
    by (cases "set xs = {}") (auto simp: max.assoc max.commute max.left_commute)
  with Cons show ?case by (simp add: insert_commute)
qed

lemma min_list_Min: "min_list m xs = Min (set (m # xs))"
proof (induction xs arbitrary: m)
  case Nil
  then show ?case by simp
next
  case (Cons x xs)
  have "Min (insert m (insert x (set xs))) = Min (insert (min m x) (set xs))"
    by (cases "set xs = {}") (auto simp: min.assoc min.commute min.left_commute)
  with Cons show ?case by (simp add: insert_commute)
qed

lemma series_max_eq:
  "series_max vs = (if present vs = [] then None else Some (Max (set (present vs))))"
  by (cases "present vs") (simp_all add: series_max_def max_list_Max)

lemma series_min_eq:
  "series_min vs = (if present vs = [] then None else Some (Min (set (present vs))))"
  by (cases "present vs") (simp_all add: series_min_def min_list_Min)

lemma Min_le_Max_list: "xs \<noteq> [] \<Longrightarrow> Min (set xs) \<le> Max (set xs)"
  by (simp add: Min_le_iff)

subsection \<open>Reading and assigning columns\<close>

lemma map_of_replace:
  "map_of (map (\<lambda>(n, c0). if n = name then (n, c) else (n, c0)) xs) m =
     (if m = name then map_option (\<lambda>_. c) (map_of xs m) else map_of xs m)"
  by (induction xs) auto

lemma map_fst_replace:
  "map fst (map (\<lambda>(n, c0). if n = name then (n, c) else (n, c0)) xs) = map fst xs"
  by (induction xs) auto

lemma get_col_Inr_iff: "get_col df n = Inr c \<longleftrightarrow> map_of (cols df) n = Some c"
  by (simp add: get_col_def split: option.splits)

lemma get_col_Inl_iff: "get_col df n = Inl e \<longleftrightarrow> map_of (cols df) n = None \<and> e = KeyError n"
  by (auto simp: get_col_def split: option.splits)

lemma name_in_cols: "map_of (cols df) n = Some c \<Longrightarrow> n \<in> fst ` set (cols df)"
  by (metis domI dom_map_of_conv_image_fst)

lemma get_col_set_col_same:
  "get_col df t = Inr c0 \<Longrightarrow> get_col (set_col df t c) t = Inr c"
  by (simp add: get_col_Inr_iff set_col_def name_in_cols map_of_replace)

lemma get_col_set_col_other:
  "n \<noteq> t \<Longrightarrow> get_col (set_col df t c) n = get_col df n"
  by (auto simp: get_col_def set_col_def map_of_replace map_add_def split: option.splits)

lemma nrows_set_col: "nrows (set_col df t c) = nrows df"
  by (simp add: set_col_def)

lemma names_set_col:
  "get_col df t = Inr c0 \<Longrightarrow> map fst (cols (set_col df t c)) = map fst (cols df)"
proof -
  assume "get_col df t = Inr c0"
  then have "t \<in> fst ` set (cols df)"
    by (simp add: get_col_Inr_iff name_in_cols)
  then have "cols (set_col df t c) = map (\<lambda>(n, c0). if n = t then (n, c) else (n, c0)) (cols df)"
    by (simp add: set_col_def)
  then show ?thesis
    by (simp only: map_fst_replace)
qed

subsection \<open>Encoding the target, and analysing the frame\<close>

lemma encode_target_numeric:
  "is_numeric_dtype tc \<Longrightarrow> encode_target df t tc = (df, False)"
  by (simp add: encode_target_def)

lemma bias_analysis_numeric:
  "get_col df t = Inr tc \<Longrightarrow> is_numeric_dtype tc \<Longrightarrow>
     bias_analysis df s t = (df, analyse_frame df s t False)"
  by (simp add: bias_analysis_def encode_target_numeric)

lemma groupby_mean_numeric:
  "groupby_mean sc (Numeric vs) =
     Inr (map (\<lambda>k. (k, mean (group_cells (labelled_rows (keys_of sc) vs) k)))
           (sort_key key_ord (uniques (map fst (labelled_rows (keys_of sc) vs)))))"
  by (simp add: groupby_mean_def Let_def)

text \<open>The report of a successful analysis of a frame, field by field.\<close>

lemma analyse_frame_Inr:
  assumes "analyse_frame df s t enc = Inr r"
  obtains sc vs dominant where
    "get_col df s = Inr sc" "get_col df t = Inr (Numeric vs)"
    "idxmax (value_counts (keys_of sc)) = Inr dominant"
    "rep r = value_counts (keys_of sc)"
    "groupby_mean sc (Numeric vs) = Inr (label_dist r)"
    "dominant_group r = dominant"
    "target_encoded r = enc" "rows r = nrows df" "columns r = length (cols df)"
proof -
  from assms obtain sc where sc: "get_col df s = Inr sc"
    by (auto simp: analyse_frame_def split: sum.splits)
  from assms sc obtain dominant where dom: "idxmax (value_counts (keys_of sc)) = Inr dominant"
    by (auto simp: analyse_frame_def Let_def split: sum.splits)
  from assms sc dom obtain tc where tc: "get_col df t = Inr tc"
    by (auto simp: analyse_frame_def Let_def split: sum.splits)
  from assms sc dom tc obtain ld where ld: "groupby_mean sc tc = Inr ld"
    by (auto simp: analyse_frame_def Let_def split: sum.splits)
  from ld obtain vs where vs: "tc = Numeric vs"
    by (cases tc) (auto simp: groupby_mean_def)
  from assms sc dom tc ld have
    "rep r = value_counts (keys_of sc)" "label_dist r = ld" "dominant_group r = dominant"
    "target_encoded r = enc" "rows r = nrows df" "columns r = length (cols df)"
    by (auto simp: analyse_frame_def Let_def)
  with sc dom tc ld vs that show thesis by simp
qed

lemma analyse_frame_fields:
  assumes "analyse_frame df s t enc = Inr r"
  shows "dominant_ratio r = series_max (map (\<lambda>(k, v). Some (Fin v)) (rep r))"
    and "rep_issue r = fgt (dominant_ratio r) (7 / 10)"
    and "spd r = fsub (series_max (map snd (label_dist r))) (series_min (map snd (label_dist r)))"
    and "label_issue r = fgt (spd r) (2 / 10)"
    and "di r = (if fgt (series_max (map snd (label_dist r))) 0
                 then fdiv (series_min (map snd (label_dist r))) (series_max (map snd (label_dist r)))
                 else Some (Fin 1))"
    and "fairness_issue r = (fgt (spd r) (1 / 10) \<or> flt (di r) (8 / 10))"
    and "traffic r = traffic_of (issues_count (rep_issue r) (label_issue r) (fairness_issue r))"
  using assms
  by (auto simp: analyse_frame_def Let_def split: sum.splits)

lemma analyse_frame_succeeds:
  assumes "get_col df s = Inr sc" "get_col df t = Inr (Numeric vs)" "present (keys_of sc) \<noteq> []"
  shows "\<exists>r. analyse_frame df s t enc = Inr r"
proof -
  from assms(3) have "value_counts (keys_of sc) \<noteq> []"
    by (simp add: value_counts_Nil_iff)
  then obtain k where "idxmax (value_counts (keys_of sc)) = Inr k"
    using idxmax_Inr by blast
  with assms(1,2) show ?thesis
    by (simp add: analyse_frame_def Let_def groupby_mean_numeric)
qed

lemma analyse_frame_enc:
  "analyse_frame df s t enc = Inr r \<Longrightarrow>
     analyse_frame df s t enc' = Inr (r\<lparr>target_encoded := enc'\<rparr>)"
  by (auto simp: analyse_frame_def Let_def split: sum.splits)
subsection \<open>The frame and the outcome of a call\<close>

lemma fst_bias_analysis:
  "fst (bias_analysis df s t) =
     (case get_col df t of Inl e \<Rightarrow> df | Inr tc \<Rightarrow> fst (encode_target df t tc))"
  by (simp add: bias_analysis_def split: sum.splits prod.splits)

lemma snd_bias_analysis:
  "snd (bias_analysis df s t) =
     (case get_col df t of
        Inl e \<Rightarrow> Inl e
      | Inr tc \<Rightarrow> analyse_frame (fst (encode_target df t tc)) s t (snd (encode_target df t tc)))"
  by (simp add: bias_analysis_def split: sum.splits prod.splits)

lemma fst_encode_target:
  "fst (encode_target df t tc) =
     (case tc of Numeric vs \<Rightarrow> df | Object vs \<Rightarrow> set_col df t (codes_column (factorize vs)))"
  by (cases tc) (simp_all add: encode_target_def)

lemma snd_encode_target: "snd (encode_target df t tc) = (\<not> is_numeric_dtype tc)"
  by (simp add: encode_target_def)

text \<open>After lines 32 to 36 the target column is numeric, and every other column is as it was.\<close>

lemma encoded_target_column:
  assumes "get_col df t = Inr tc"
  shows "\<exists>vs. get_col (fst (encode_target df t tc)) t = Inr (Numeric vs)"
proof (cases tc)
  case (Numeric vs)
  with assms show ?thesis by (simp add: fst_encode_target)
next
  case (Object vs)
  with assms show ?thesis
    by (simp add: fst_encode_target get_col_set_col_same codes_column_def)
qed

lemma encoded_other_column:
  "n \<noteq> t \<Longrightarrow> get_col (fst (encode_target df t tc)) n = get_col df n"
  by (cases tc) (simp_all add: fst_encode_target get_col_set_col_other)

lemma encoded_nrows: "nrows (fst (encode_target df t tc)) = nrows df"
  by (cases tc) (simp_all add: fst_encode_target nrows_set_col)

lemma encoded_names:
  "get_col df t = Inr tc \<Longrightarrow> map fst (cols (fst (encode_target df t tc))) = map fst (cols df)"
  by (cases tc) (simp_all add: fst_encode_target names_set_col)

lemma encoded_changed:
  assumes "get_col df t = Inr tc"
  shows "fst (encode_target df t tc) = df \<longleftrightarrow> is_numeric_dtype tc"
proof (cases tc)
  case (Numeric vs)
  then show ?thesis by (simp add: fst_encode_target)
next
  case (Object vs)
  with assms have "get_col (set_col df t (codes_column (factorize vs))) t \<noteq> get_col df t"
    by (simp add: get_col_set_col_same codes_column_def)
  then have "set_col df t (codes_column (factorize vs)) \<noteq> df"
    by auto
  with Object show ?thesis by (simp add: fst_encode_target)
qed

text \<open>The ways the analysis of a frame fails.\<close>

lemma analyse_frame_no_sensitive:
  "get_col df s = Inl e \<Longrightarrow> analyse_frame df s t enc = Inl e"
  by (simp add: analyse_frame_def)

lemma analyse_frame_no_group:
  "get_col df s = Inr sc \<Longrightarrow> present (keys_of sc) = [] \<Longrightarrow>
     analyse_frame df s t enc = Inl ValueError"
  using value_counts_Nil_iff [of "keys_of sc"] by (simp add: analyse_frame_def Let_def)

lemma analyse_frame_error:
  assumes "analyse_frame df s t enc = Inl e" "get_col df t = Inr (Numeric vs)"
  shows "get_col df s = Inl (KeyError s) \<and> e = KeyError s
       \<or> (\<exists>sc. get_col df s = Inr sc \<and> present (keys_of sc) = [] \<and> e = ValueError)"
proof (cases "get_col df s")
  case (Inl e')
  with assms show ?thesis
    by (auto simp: analyse_frame_no_sensitive get_col_Inl_iff)
next
  case (Inr sc)
  show ?thesis
  proof (cases "present (keys_of sc) = []")
    case True
    with Inr assms show ?thesis by (simp add: analyse_frame_no_group)
  next
    case False
    with Inr assms(2) obtain r where "analyse_frame df s t enc = Inr r"
      using analyse_frame_succeeds by blast
    with assms(1) show ?thesis by simp
  qed
qed

lemma col_len_keys: "length (keys_of c) = col_len c"
  by (cases c) simp_all

lemma wf_df_col_len:
  "wf_df df \<Longrightarrow> get_col df n = Inr c \<Longrightarrow> col_len c = nrows df"
  by (auto simp: wf_df_def get_col_Inr_iff list_all_iff dest: map_of_SomeD)

lemma length_factorize_loop: "length (factorize_loop seen xs) = length xs"
  by (induction seen xs rule: factorize_loop.induct) auto

lemma length_factorize: "length (factorize xs) = length xs"
  by (simp add: factorize_def length_factorize_loop)

lemma encoded_col_len:
  assumes "get_col df t = Inr tc" "get_col (fst (encode_target df t tc)) n = Inr c"
    and "wf_df df"
  shows "col_len c = nrows df"
proof (cases "n = t")
  case False
  with assms show ?thesis by (simp add: encoded_other_column wf_df_col_len)
next
  case True
  show ?thesis
  proof (cases tc)
    case (Numeric vs)
    with assms True show ?thesis by (simp add: fst_encode_target wf_df_col_len)
  next
    case (Object vs)
    with assms True have "c = codes_column (factorize vs)"
      by (simp add: fst_encode_target get_col_set_col_same)
    moreover from assms(1,3) Object have "length vs = nrows df"
      using wf_df_col_len by fastforce
    ultimately show ?thesis by (simp add: codes_column_def length_factorize)
  qed
qed

text \<open>Success on every valid input.\<close>

lemma bias_analysis_succeeds:
  assumes "s \<noteq> t" "get_col df s = Inr sc" "get_col df t = Inr tc" "present (keys_of sc) \<noteq> []"
  shows "\<exists>r. snd (bias_analysis df s t) = Inr r"
proof -
  let ?df1 = "fst (encode_target df t tc)"
  from assms(3) obtain vs where "get_col ?df1 t = Inr (Numeric vs)"
    using encoded_target_column by blast
  moreover from assms(1,2) have "get_col ?df1 s = Inr sc"
    by (simp add: encoded_other_column)
  ultimately obtain r where "analyse_frame ?df1 s t (snd (encode_target df t tc)) = Inr r"
    using assms(4) analyse_frame_succeeds by blast
  with assms(3) show ?thesis by (simp add: snd_bias_analysis)
qed

text \<open>A second call on the frame the first call left behind.\<close>

lemma second_call:
  assumes "bias_analysis df s t = (df1, Inr r1)"
  shows "bias_analysis df1 s t = (df1, Inr (r1\<lparr>target_encoded := False\<rparr>))"
proof -
  from assms obtain tc where tc: "get_col df t = Inr tc"
    by (cases "get_col df t") (auto simp: bias_analysis_def)
  from assms tc have df1: "df1 = fst (encode_target df t tc)"
    and r1: "analyse_frame df1 s t (snd (encode_target df t tc)) = Inr r1"
    by (auto simp: bias_analysis_def split: prod.splits)
  from tc df1 obtain vs where "get_col df1 t = Inr (Numeric vs)"
    using encoded_target_column by blast
  then have "bias_analysis df1 s t = (df1, analyse_frame df1 s t False)"
    by (simp add: bias_analysis_numeric)
  with r1 show ?thesis
    by (simp add: analyse_frame_enc)
qed

text \<open>Running the call on a concrete frame: the definitions to unfold.\<close>

lemma overflow_limit_pos: "0 < overflow_limit"
  by (simp add: overflow_limit_def)

lemmas run_defs =
  bias_analysis_def get_col_def encode_target_def set_col_def codes_column_def factorize_def
  analyse_frame_def value_counts_def uniques_def groupby_mean_def Let_def group_cells_def
  mean_def series_max_def series_min_def issues_count_def traffic_of_def less_ext_def
  round_range_def overflow_limit_def

section \<open>Failure, and what the call does to the frame\<close>

text \<open>
  Claim C1. Whenever the data set is empty, or lacks the target or the sensitive column, or
  has no value at all in its sensitive column (every cell missing), the call raises and
  returns no report. The exception is the \<^verbatim>\<open>KeyError\<close> of pandas for an
  absent column, and the \<^verbatim>\<open>ValueError\<close> that \<^verbatim>\<open>idxmax\<close>
  raises on an empty series otherwise: the code has no exception class of its own, and
  these two are what the specification calls InvalidInputError. For the last case the two
  column names are taken to be different, as the caller sees to (line 89).
\<close>

theorem invalid_input_raises:
  assumes "wf_df df"
    and "nrows df = 0
       \<or> target \<notin> fst ` set (cols df)
       \<or> sensitive \<notin> fst ` set (cols df)
       \<or> (sensitive \<noteq> target \<and>
           (\<exists>sc. get_col df sensitive = Inr sc \<and> set (present (keys_of sc)) = {}))"
  shows "\<exists>e. snd (bias_analysis df sensitive target) = Inl e
           \<and> (e = KeyError target \<or> e = KeyError sensitive \<or> e = ValueError)"
proof (cases "get_col df target")
  case (Inl e)
  then have "e = KeyError target"
    by (simp add: get_col_Inl_iff)
  with Inl show ?thesis
    by (simp add: snd_bias_analysis)
next
  case (Inr tc)
  let ?df1 = "fst (encode_target df target tc)"
  let ?enc = "snd (encode_target df target tc)"
  have run: "snd (bias_analysis df sensitive target) = analyse_frame ?df1 sensitive target ?enc"
    using Inr by (simp add: snd_bias_analysis)
  have tin: "target \<in> fst ` set (cols df)"
    using Inr by (simp add: get_col_Inr_iff name_in_cols)
  show ?thesis
  proof (cases "get_col ?df1 sensitive")
    case (Inl e)
    then have "analyse_frame ?df1 sensitive target ?enc = Inl (KeyError sensitive)"
      by (auto simp: analyse_frame_no_sensitive get_col_Inl_iff)
    with run show ?thesis by simp
  next
    case sc1: (Inr sc1)
    have "present (keys_of sc1) = []"
    proof (cases "nrows df = 0")
      case True
      with Inr sc1 assms(1) have "col_len sc1 = 0"
        using encoded_col_len by fastforce
      then show ?thesis by (simp flip: col_len_keys)
    next
      case False
      have sin: "sensitive \<in> fst ` set (cols df)"
      proof (cases "sensitive = target")
        case True
        with tin show ?thesis by simp
      next
        case False
        with sc1 have "get_col df sensitive = Inr sc1"
          by (simp add: encoded_other_column)
        then show ?thesis by (simp add: get_col_Inr_iff name_in_cols)
      qed
      with False tin assms(2) obtain sc where
        "sensitive \<noteq> target" "get_col df sensitive = Inr sc" "set (present (keys_of sc)) = {}"
        by auto
      with sc1 show ?thesis by (simp add: encoded_other_column)
    qed
    with sc1 have "analyse_frame ?df1 sensitive target ?enc = Inl ValueError"
      by (rule analyse_frame_no_group)
    with run show ?thesis by simp
  qed
qed

theorem invalid_input_raises_witness:
  "wf_df frame_empty \<and> nrows frame_empty = 0
   \<and> (\<exists>e. snd (bias_analysis frame_empty ''group'' ''label'') = Inl e
          \<and> (e = KeyError ''label'' \<or> e = KeyError ''group'' \<or> e = ValueError))
   \<and> snd (bias_analysis frame_empty ''group'' ''label'') = Inl ValueError
   \<and> ''absent'' \<notin> fst ` set (cols frame_text)
   \<and> (\<exists>e. snd (bias_analysis frame_text ''group'' ''absent'') = Inl e
          \<and> (e = KeyError ''absent'' \<or> e = KeyError ''group'' \<or> e = ValueError))
   \<and> snd (bias_analysis frame_text ''group'' ''absent'') = Inl (KeyError ''absent'')"
proof -
  have wf: "wf_df frame_empty" and wf': "wf_df frame_text"
    by (simp_all add: wf_df_def)
  have "snd (bias_analysis frame_empty ''group'' ''label'') = Inl ValueError"
    and "snd (bias_analysis frame_text ''group'' ''absent'') = Inl (KeyError ''absent'')"
    by (simp_all add: bias_analysis_def get_col_def encode_target_def set_col_def
        codes_column_def factorize_def analyse_frame_def value_counts_def uniques_def)
  then show ?thesis
    using wf invalid_input_raises [of frame_empty "''label''" "''group''"]
      invalid_input_raises [of frame_text "''absent''" "''group''"]
    by simp
qed

text \<open>
  Claim C2, as stated, fails on the code. It says that the call leaves every column of
  the caller's table as it was. Line 33 assigns the codes to
  \<^verbatim>\<open>df[target]\<close>, and \<^verbatim>\<open>df\<close> is the
  caller's frame: a target column of text is replaced there.
\<close>

theorem caller_frame_mutated_counterexample:
  "get_col (fst (bias_analysis frame_text ''group'' ''label'')) ''label''
     = Inr (Numeric [Some (Fin 0), Some (Fin 1), Some (Fin 0)])
   \<and> get_col frame_text ''label'' = Inr (Object [Some ''yes'', Some ''no'', Some ''yes''])
   \<and> fst (bias_analysis frame_text ''group'' ''label'') \<noteq> frame_text"
  by (simp add: fst_bias_analysis fst_encode_target get_col_def set_col_def codes_column_def
      factorize_def)

text \<open>
  Claim C2, amended to what the code does: the call keeps the number of rows, the column
  names and their order, and every column other than the target; it leaves the whole
  frame as it was when the target column is absent or numeric; and it replaces a target
  column that is not numeric by its codes.
\<close>

theorem caller_frame_effect:
  "nrows (fst (bias_analysis df sensitive target)) = nrows df
   \<and> map fst (cols (fst (bias_analysis df sensitive target))) = map fst (cols df)
   \<and> (\<forall>n. n \<noteq> target \<longrightarrow>
          get_col (fst (bias_analysis df sensitive target)) n = get_col df n)
   \<and> (case get_col df target of
        Inl e \<Rightarrow> fst (bias_analysis df sensitive target) = df
      | Inr (Numeric vs) \<Rightarrow> fst (bias_analysis df sensitive target) = df
      | Inr (Object vs) \<Rightarrow>
          get_col (fst (bias_analysis df sensitive target)) target
            = Inr (codes_column (factorize vs)))"
proof (cases "get_col df target")
  case (Inl e)
  then show ?thesis by (simp add: fst_bias_analysis)
next
  case (Inr tc)
  then have after: "fst (bias_analysis df sensitive target) = fst (encode_target df target tc)"
    by (simp add: fst_bias_analysis)
  have "case tc of
          Numeric vs \<Rightarrow> fst (encode_target df target tc) = df
        | Object vs \<Rightarrow>
            get_col (fst (encode_target df target tc)) target = Inr (codes_column (factorize vs))"
    using Inr by (cases tc) (simp_all add: fst_encode_target get_col_set_col_same)
  with Inr show ?thesis
    unfolding after by (simp add: encoded_nrows encoded_names encoded_other_column)
qed

theorem caller_frame_effect_witness:
  "nrows (fst (bias_analysis frame_text ''group'' ''label'')) = 3
   \<and> map fst (cols (fst (bias_analysis frame_text ''group'' ''label''))) = [''group'', ''label'']
   \<and> get_col (fst (bias_analysis frame_text ''group'' ''label'')) ''group''
       = Inr (Object [Some ''a'', Some ''b'', Some ''a''])
   \<and> get_col (fst (bias_analysis frame_text ''group'' ''label'')) ''label''
       = Inr (Numeric [Some (Fin 0), Some (Fin 1), Some (Fin 0)])
   \<and> fst (bias_analysis frame_numeric ''group'' ''label'') = frame_numeric"
proof -
  have "get_col frame_text ''label'' = Inr (Object [Some ''yes'', Some ''no'', Some ''yes''])"
    and "get_col frame_text ''group'' = Inr (Object [Some ''a'', Some ''b'', Some ''a''])"
    and "get_col frame_numeric ''label'' = Inr (Numeric [Some (Fin 1), Some (Fin 0), Some (Fin 1), Some (Fin 1)])"
    and "codes_column (factorize [Some ''yes'', Some ''no'', Some ''yes''])
           = Numeric [Some (Fin 0), Some (Fin 1), Some (Fin 0)]"
    by (simp_all add: get_col_def codes_column_def factorize_def)
  then show ?thesis
    using caller_frame_effect [of frame_text "''group''" "''label''"]
      caller_frame_effect [of frame_numeric "''group''" "''label''"]
    by simp
qed

text \<open>
  Claim C3, as stated, fails on the code. It says that two calls in a row on the same
  frame give the same report. The first call on a target of text encodes the caller's
  column, so the second call finds a numeric target and reports
  \<^verbatim>\<open>target_encoded\<close> false.
\<close>

theorem repeated_call_counterexample:
  "(\<exists>r1 r2. snd (bias_analysis frame_text ''group'' ''label'') = Inr r1
      \<and> snd (bias_analysis (fst (bias_analysis frame_text ''group'' ''label''))
              ''group'' ''label'') = Inr r2
      \<and> target_encoded r1 \<and> \<not> target_encoded r2 \<and> r1 \<noteq> r2)"
proof -
  obtain df1 r1 where first: "bias_analysis frame_text ''group'' ''label'' = (df1, r1)"
    by (cases "bias_analysis frame_text ''group'' ''label''")
  have "\<exists>r. snd (bias_analysis frame_text ''group'' ''label'') = Inr r"
    by (rule bias_analysis_succeeds [where sc = "Object [Some ''a'', Some ''b'', Some ''a'']"
          and tc = "Object [Some ''yes'', Some ''no'', Some ''yes'']"])
      (simp_all add: get_col_def)
  with first obtain r where r: "r1 = Inr r" by auto
  have enc: "target_encoded r"
    using first r
    by (auto simp: bias_analysis_def get_col_def encode_target_def elim!: analyse_frame_Inr)
  from first r have second: "bias_analysis df1 ''group'' ''label''
      = (df1, Inr (r\<lparr>target_encoded := False\<rparr>))"
    by (simp add: second_call)
  have "target_encoded (r\<lparr>target_encoded := False\<rparr>) \<noteq> target_encoded r"
    using enc by simp
  then have "r \<noteq> r\<lparr>target_encoded := False\<rparr>"
    by metis
  with first r enc second show ?thesis
    by simp
qed

text \<open>
  Claim C3, amended to what the code does: on every valid input the first call returns a
  report, and the second call, on the frame the first one left, returns the same report
  with \<^verbatim>\<open>target_encoded\<close> false. The two reports are identical
  when the target column was numeric from the start, and differ in
  \<^verbatim>\<open>target_encoded\<close> alone when it was not. A third call repeats
  the second.
\<close>

theorem repeated_call:
  assumes "sensitive \<noteq> target"
    and "get_col df sensitive = Inr sc" and "get_col df target = Inr tc"
    and "present (keys_of sc) \<noteq> []"
  shows "\<exists>df1 r1. bias_analysis df sensitive target = (df1, Inr r1)
           \<and> bias_analysis df1 sensitive target = (df1, Inr (r1\<lparr>target_encoded := False\<rparr>))
           \<and> target_encoded r1 = (\<not> is_numeric_dtype tc)
           \<and> (if is_numeric_dtype tc
                then bias_analysis df1 sensitive target = bias_analysis df sensitive target
                else snd (bias_analysis df1 sensitive target)
                       \<noteq> snd (bias_analysis df sensitive target))"
proof -
  obtain r1 where r1: "snd (bias_analysis df sensitive target) = Inr r1"
    using assms bias_analysis_succeeds by blast
  define df1 where "df1 = fst (bias_analysis df sensitive target)"
  with r1 have first: "bias_analysis df sensitive target = (df1, Inr r1)"
    by (simp add: prod_eq_iff)
  then have second:
    "bias_analysis df1 sensitive target = (df1, Inr (r1\<lparr>target_encoded := False\<rparr>))"
    by (rule second_call)
  from r1 assms(3) have
    "analyse_frame (fst (encode_target df target tc)) sensitive target
       (snd (encode_target df target tc)) = Inr r1"
    by (simp add: snd_bias_analysis)
  then have enc: "target_encoded r1 = (\<not> is_numeric_dtype tc)"
    by (auto simp: snd_encode_target elim!: analyse_frame_Inr)
  have "r1\<lparr>target_encoded := False\<rparr> = r1" if "is_numeric_dtype tc"
    using that enc by simp
  moreover have "r1\<lparr>target_encoded := False\<rparr> \<noteq> r1" if "\<not> is_numeric_dtype tc"
  proof
    assume "r1\<lparr>target_encoded := False\<rparr> = r1"
    then have "target_encoded (r1\<lparr>target_encoded := False\<rparr>) = target_encoded r1"
      by simp
    with that enc show False by simp
  qed
  ultimately show ?thesis
    using first second enc by auto
qed

theorem repeated_call_witness:
  "\<exists>df1 r1. bias_analysis frame_text ''group'' ''label'' = (df1, Inr r1)
     \<and> bias_analysis df1 ''group'' ''label'' = (df1, Inr (r1\<lparr>target_encoded := False\<rparr>))
     \<and> target_encoded r1
     \<and> snd (bias_analysis df1 ''group'' ''label'')
           \<noteq> snd (bias_analysis frame_text ''group'' ''label'')"
  using repeated_call [of "''group''" "''label''" frame_text
      "Object [Some ''a'', Some ''b'', Some ''a'']"
      "Object [Some ''yes'', Some ''no'', Some ''yes'']"]
  by (simp add: get_col_def)

text \<open>
  Claim C4, as stated, fails on the code. It says that a failing call has had no observable
  effect by the time the failure surfaces. The target column is encoded on line 33, before
  the sensitive column is first read on line 42: with a target of text and no sensitive
  column, the \<^verbatim>\<open>KeyError\<close> leaves the caller's frame encoded.
\<close>

theorem failure_after_encoding_counterexample:
  "snd (bias_analysis frame_text ''absent'' ''label'') = Inl (KeyError ''absent'')
   \<and> fst (bias_analysis frame_text ''absent'' ''label'') \<noteq> frame_text
   \<and> get_col (fst (bias_analysis frame_text ''absent'' ''label'')) ''label''
       = Inr (Numeric [Some (Fin 0), Some (Fin 1), Some (Fin 0)])"
  by (simp add: bias_analysis_def get_col_def encode_target_def set_col_def codes_column_def
      factorize_def analyse_frame_def)

text \<open>
  Claim C4, amended to what the code does: a failing call returns no report, and it
  fails in one of two ways. Either the target column is absent: then the exception is
  its \<^verbatim>\<open>KeyError\<close> and the frame is as it was. Or the target
  column is there and the exception is the \<^verbatim>\<open>KeyError\<close> of the
  sensitive column or the \<^verbatim>\<open>ValueError\<close> of a frame with no
  group: then every other column is as it was, and the frame as a whole is as it was
  exactly when the target column was numeric; a target column that was not numeric has
  been replaced by its codes.
\<close>

theorem failure_effect:
  assumes "snd (bias_analysis df sensitive target) = Inl e"
  shows "(target \<notin> fst ` set (cols df) \<and> e = KeyError target
            \<and> fst (bias_analysis df sensitive target) = df)
       \<or> (\<exists>tc. get_col df target = Inr tc
            \<and> (e = KeyError sensitive \<or> e = ValueError)
            \<and> (\<forall>n. n \<noteq> target \<longrightarrow>
                   get_col (fst (bias_analysis df sensitive target)) n = get_col df n)
            \<and> (fst (bias_analysis df sensitive target) = df \<longleftrightarrow> is_numeric_dtype tc)
            \<and> (\<forall>vs. tc = Object vs \<longrightarrow>
                   get_col (fst (bias_analysis df sensitive target)) target
                     = Inr (codes_column (factorize vs))))"
proof (cases "get_col df target")
  case (Inl e')
  with assms have "e = KeyError target" "map_of (cols df) target = None"
    by (auto simp: snd_bias_analysis get_col_Inl_iff)
  moreover from Inl have "fst (bias_analysis df sensitive target) = df"
    by (simp add: fst_bias_analysis)
  ultimately show ?thesis
    by (simp add: map_of_eq_None_iff)
next
  case (Inr tc)
  let ?df1 = "fst (encode_target df target tc)"
  from Inr have fst: "fst (bias_analysis df sensitive target) = ?df1"
    by (simp add: fst_bias_analysis)
  from Inr obtain vs where "get_col ?df1 target = Inr (Numeric vs)"
    using encoded_target_column by blast
  moreover from Inr assms
  have "analyse_frame ?df1 sensitive target (snd (encode_target df target tc)) = Inl e"
    by (simp add: snd_bias_analysis)
  ultimately have "e = KeyError sensitive \<or> e = ValueError"
    using analyse_frame_error by blast
  moreover have "\<forall>vs. tc = Object vs \<longrightarrow>
      get_col ?df1 target = Inr (codes_column (factorize vs))"
    using Inr by (auto simp: fst_encode_target get_col_set_col_same)
  ultimately show ?thesis
    using Inr fst by (simp add: encoded_other_column encoded_changed)
qed

theorem failure_effect_witness:
  "snd (bias_analysis frame_text ''absent'' ''label'') = Inl (KeyError ''absent'')
   \<and> fst (bias_analysis frame_text ''absent'' ''label'') \<noteq> frame_text
   \<and> get_col (fst (bias_analysis frame_text ''absent'' ''label'')) ''group''
       = get_col frame_text ''group''
   \<and> snd (bias_analysis frame_numeric ''absent'' ''label'') = Inl (KeyError ''absent'')
   \<and> fst (bias_analysis frame_numeric ''absent'' ''label'') = frame_numeric"
proof -
  have h1: "snd (bias_analysis frame_text ''absent'' ''label'') = Inl (KeyError ''absent'')"
    and h2: "snd (bias_analysis frame_numeric ''absent'' ''label'') = Inl (KeyError ''absent'')"
    by (simp_all add: bias_analysis_def get_col_def encode_target_def set_col_def
        analyse_frame_def)
  have "get_col frame_text ''label'' = Inr (Object [Some ''yes'', Some ''no'', Some ''yes''])"
    and "get_col frame_numeric ''label'' = Inr (Numeric [Some (Fin 1), Some (Fin 0), Some (Fin 1), Some (Fin 1)])"
    by (simp_all add: get_col_def)
  with failure_effect [OF h1] failure_effect [OF h2] h1 h2 show ?thesis
    by auto
qed

section \<open>The report of a valid input\<close>

text \<open>
  An input is valid when the two column names are different, both columns are in the
  frame, and the sensitive column has at least one value (so the frame has at least one
  row). The lemmas below read the fields of the report off the call itself.
\<close>

lemma report_fields:
  assumes "snd (bias_analysis df s t) = Inr r"
  shows "dominant_ratio r = series_max (map (\<lambda>(k, v). Some (Fin v)) (rep r))"
    and "rep_issue r = fgt (dominant_ratio r) (7 / 10)"
    and "spd r = fsub (series_max (map snd (label_dist r))) (series_min (map snd (label_dist r)))"
    and "label_issue r = fgt (spd r) (2 / 10)"
    and "di r = (if fgt (series_max (map snd (label_dist r))) 0
                 then fdiv (series_min (map snd (label_dist r))) (series_max (map snd (label_dist r)))
                 else Some (Fin 1))"
    and "fairness_issue r = (fgt (spd r) (1 / 10) \<or> flt (di r) (8 / 10))"
    and "traffic r = traffic_of (issues_count (rep_issue r) (label_issue r) (fairness_issue r))"
proof -
  from assms obtain tc where tc: "get_col df t = Inr tc"
    by (cases "get_col df t") (auto simp: snd_bias_analysis)
  with assms have
    "analyse_frame (fst (encode_target df t tc)) s t (snd (encode_target df t tc)) = Inr r"
    by (simp add: snd_bias_analysis)
  then show
    "dominant_ratio r = series_max (map (\<lambda>(k, v). Some (Fin v)) (rep r))"
    "rep_issue r = fgt (dominant_ratio r) (7 / 10)"
    "spd r = fsub (series_max (map snd (label_dist r))) (series_min (map snd (label_dist r)))"
    "label_issue r = fgt (spd r) (2 / 10)"
    "di r = (if fgt (series_max (map snd (label_dist r))) 0
             then fdiv (series_min (map snd (label_dist r))) (series_max (map snd (label_dist r)))
             else Some (Fin 1))"
    "fairness_issue r = (fgt (spd r) (1 / 10) \<or> flt (di r) (8 / 10))"
    "traffic r = traffic_of (issues_count (rep_issue r) (label_issue r) (fairness_issue r))"
    by (rule analyse_frame_fields)+
qed

lemma report_rep:
  assumes "s \<noteq> t" "get_col df s = Inr sc" "snd (bias_analysis df s t) = Inr r"
  shows "rep r = value_counts (keys_of sc)"
    and "idxmax (value_counts (keys_of sc)) = Inr (dominant_group r)"
proof -
  from assms(3) obtain tc where tc: "get_col df t = Inr tc"
    by (cases "get_col df t") (auto simp: snd_bias_analysis)
  let ?df1 = "fst (encode_target df t tc)"
  from assms(3) tc have run: "analyse_frame ?df1 s t (snd (encode_target df t tc)) = Inr r"
    by (simp add: snd_bias_analysis)
  from assms(1,2) have "get_col ?df1 s = Inr sc"
    by (simp add: encoded_other_column)
  with run show "rep r = value_counts (keys_of sc)"
    and "idxmax (value_counts (keys_of sc)) = Inr (dominant_group r)"
    by (auto elim!: analyse_frame_Inr)
qed

lemma issues_count_flags: "issues_count a b c = length (filter id [a, b, c])"
  by (cases a; cases b; cases c) (simp_all add: issues_count_def)

text \<open>
  Claim C5. On every valid input the call returns a report whose disparate impact ratio is
  the least group mean divided by the greatest when the greatest is above 0, and 1
  otherwise. The greatest and the least are taken over the group means that are numbers;
  when there is none the greatest is NaN, which is not above 0, and the ratio is 1. The
  quotient is the float quotient of line 54; when the two means are finite and their
  quotient is in range, it is their quotient as numbers.
\<close>

theorem disparate_impact_ratio:
  assumes "sensitive \<noteq> target"
    and "get_col df sensitive = Inr sc" and "get_col df target = Inr tc"
    and "present (keys_of sc) \<noteq> []"
  shows "\<exists>r. snd (bias_analysis df sensitive target) = Inr r
           \<and> (let means = present (map snd (label_dist r))
              in di r = (if means \<noteq> [] \<and> Fin 0 < Max (set means)
                         then fdiv (Some (Min (set means))) (Some (Max (set means)))
                         else Some (Fin 1))
               \<and> (\<forall>m M. means \<noteq> [] \<and> Min (set means) = Fin m \<and> Max (set means) = Fin M
                          \<and> 0 < M \<and> - overflow_limit < m / M
                        \<longrightarrow> di r = Some (Fin (m / M))))"
proof -
  obtain r where r: "snd (bias_analysis df sensitive target) = Inr r"
    using assms bias_analysis_succeeds by blast
  let ?means = "present (map snd (label_dist r))"
  have di: "di r = (if ?means \<noteq> [] \<and> Fin 0 < Max (set ?means)
                then fdiv (Some (Min (set ?means))) (Some (Max (set ?means)))
                else Some (Fin 1))"
    by (simp add: report_fields(5) [OF r] series_max_eq series_min_eq)
  have "di r = Some (Fin (m / M))"
    if "?means \<noteq> []" "Min (set ?means) = Fin m" "Max (set ?means) = Fin M"
      "0 < M" "- overflow_limit < m / M" for m M
  proof -
    from that(1) have "Min (set ?means) \<le> Max (set ?means)"
      by (rule Min_le_Max_list)
    with that(2,3) have "m \<le> M"
      by simp
    with that(4) have "m / M \<le> 1"
      by (simp add: divide_le_eq)
    moreover have "1 < overflow_limit"
      by (simp add: overflow_limit_def)
    ultimately have "round_range (m / M) = Fin (m / M)"
      using that(5) by (simp add: round_range_def)
    with that di show ?thesis
      by (simp add: less_ext_def)
  qed
  with r di show ?thesis
    by (simp add: Let_def)
qed

theorem disparate_impact_ratio_witness:
  "\<exists>r. snd (bias_analysis frame_numeric ''group'' ''label'') = Inr r
     \<and> label_dist r = [(KStr ''a'', Some (Fin (1 / 2))), (KStr ''b'', Some (Fin 1))]
     \<and> di r = Some (Fin (1 / 2))"
proof -
  have "snd (bias_analysis frame_numeric ''group'' ''label'') =
    Inr \<lparr>target_encoded = False, rows = 4, columns = 2,
          rep = [(KStr ''a'', 1 / 2), (KStr ''b'', 1 / 2)],
          label_dist = [(KStr ''a'', Some (Fin (1 / 2))), (KStr ''b'', Some (Fin 1))],
          rep_issue = False, label_issue = True, fairness_issue = True,
          traffic = ''red'', dominant_group = KStr ''a'',
          dominant_ratio = Some (Fin (1 / 2)), spd = Some (Fin (1 / 2)), di = Some (Fin (1 / 2))\<rparr>"
    by (simp add: run_defs)
  then show ?thesis
    using disparate_impact_ratio [of "''group''" "''label''" frame_numeric
        "Object [Some ''a'', Some ''a'', Some ''b'', Some ''b'']"
        "Numeric [Some (Fin 1), Some (Fin 0), Some (Fin 1), Some (Fin 1)]"]
    by (simp add: get_col_def)
qed

text \<open>
  Claim C6. On every valid input the call returns a report whose colour, and with it the
  risk level the caller shows, depends on the number of flags set among the three and on
  nothing else: none gives green (LOW), one gives yellow (MODERATE), two or three give red
  (HIGH).
\<close>

theorem risk_level_by_flag_count:
  assumes "sensitive \<noteq> target"
    and "get_col df sensitive = Inr sc" and "get_col df target = Inr tc"
    and "present (keys_of sc) \<noteq> []"
  shows "\<exists>r. snd (bias_analysis df sensitive target) = Inr r
           \<and> (let n = length (filter id [rep_issue r, label_issue r, fairness_issue r])
              in traffic r = (if n = 0 then ''green'' else if n = 1 then ''yellow'' else ''red'')
               \<and> risk_level r = (if n = 0 then LOW else if n = 1 then MODERATE else HIGH))"
proof -
  obtain r where r: "snd (bias_analysis df sensitive target) = Inr r"
    using assms bias_analysis_succeeds by blast
  have "traffic r
      = traffic_of (length (filter id [rep_issue r, label_issue r, fairness_issue r]))"
    by (simp only: report_fields(7) [OF r] issues_count_flags)
  then show ?thesis
    using r by (simp add: Let_def traffic_of_def risk_level_def)
qed

theorem risk_level_by_flag_count_witness:
  "\<exists>r. snd (bias_analysis frame_numeric ''group'' ''label'') = Inr r
     \<and> \<not> rep_issue r \<and> label_issue r \<and> fairness_issue r
     \<and> traffic r = ''red'' \<and> risk_level r = HIGH"
proof -
  have "snd (bias_analysis frame_numeric ''group'' ''label'') =
    Inr \<lparr>target_encoded = False, rows = 4, columns = 2,
          rep = [(KStr ''a'', 1 / 2), (KStr ''b'', 1 / 2)],
          label_dist = [(KStr ''a'', Some (Fin (1 / 2))), (KStr ''b'', Some (Fin 1))],
          rep_issue = False, label_issue = True, fairness_issue = True,
          traffic = ''red'', dominant_group = KStr ''a'',
          dominant_ratio = Some (Fin (1 / 2)), spd = Some (Fin (1 / 2)), di = Some (Fin (1 / 2))\<rparr>"
    by (simp add: run_defs)
  then show ?thesis
    using risk_level_by_flag_count [of "''group''" "''label''" frame_numeric
        "Object [Some ''a'', Some ''a'', Some ''b'', Some ''b'']"
        "Numeric [Some (Fin 1), Some (Fin 0), Some (Fin 1), Some (Fin 1)]"]
    by (simp add: get_col_def risk_level_def)
qed

text \<open>
  Claim C7. On every valid input the call returns a report whose group proportions have
  one entry for each distinct value of the sensitive column (missing cells are no value)
  and sum to 1. The sum is exactly 1 in exact arithmetic, so it is within 1e-9 of 1; the
  rounding of the floating-point sum is outside this model.
\<close>

theorem group_proportions_sum:
  assumes "sensitive \<noteq> target"
    and "get_col df sensitive = Inr sc" and "get_col df target = Inr tc"
    and "present (keys_of sc) \<noteq> []"
  shows "\<exists>r. snd (bias_analysis df sensitive target) = Inr r
           \<and> sum_list (map snd (rep r)) = 1
           \<and> \<bar>sum_list (map snd (rep r)) - 1\<bar> \<le> 1 / 10 ^ 9
           \<and> distinct (map fst (rep r))
           \<and> set (map fst (rep r)) = set (present (keys_of sc))
           \<and> length (rep r) = card (set (present (keys_of sc)))"
proof -
  obtain r where r: "snd (bias_analysis df sensitive target) = Inr r"
    using assms bias_analysis_succeeds by blast
  have rep: "rep r = value_counts (keys_of sc)"
    using assms(1,2) r by (rule report_rep)
  have total: "sum_list (map snd (rep r)) = 1"
    unfolding rep using assms(4) by (rule sum_value_counts)
  have dist: "distinct (map fst (rep r))"
    unfolding rep by (rule distinct_value_counts)
  have keys: "set (map fst (rep r)) = set (present (keys_of sc))"
    unfolding rep by (rule map_fst_value_counts)
  have "length (rep r) = length (map fst (rep r))"
    by simp
  also have "\<dots> = card (set (map fst (rep r)))"
    using dist by (simp only: distinct_card)
  finally have "length (rep r) = card (set (present (keys_of sc)))"
    by (simp only: keys)
  with r total dist keys show ?thesis by simp
qed

theorem group_proportions_sum_witness:
  "\<exists>r. snd (bias_analysis frame_text ''group'' ''label'') = Inr r
     \<and> rep r = [(KStr ''a'', 2 / 3), (KStr ''b'', 1 / 3)]
     \<and> sum_list (map snd (rep r)) = 1
     \<and> set (map fst (rep r)) = {KStr ''a'', KStr ''b''}"
proof -
  have "snd (bias_analysis frame_text ''group'' ''label'') =
    Inr \<lparr>target_encoded = True, rows = 3, columns = 2,
          rep = [(KStr ''a'', 2 / 3), (KStr ''b'', 1 / 3)],
          label_dist = [(KStr ''a'', Some (Fin 0)), (KStr ''b'', Some (Fin 1))],
          rep_issue = False, label_issue = True, fairness_issue = True,
          traffic = ''red'', dominant_group = KStr ''a'',
          dominant_ratio = Some (Fin (2 / 3)), spd = Some (Fin 1), di = Some (Fin 0)\<rparr>"
    by (simp add: run_defs)
  then show ?thesis
    using group_proportions_sum [of "''group''" "''label''" frame_text
        "Object [Some ''a'', Some ''b'', Some ''a'']"
        "Object [Some ''yes'', Some ''no'', Some ''yes'']"]
    by (auto simp: get_col_def)
qed

section \<open>The codes of a target of text\<close>

lemma index_of_append:
  "x \<in> set xs \<Longrightarrow> index_of x (xs @ ys) = index_of x xs"
  by (induction xs) auto

lemma index_of_new: "x \<notin> set xs \<Longrightarrow> index_of x (xs @ [x]) = length xs"
  by (induction xs) auto

lemma seen_before_None: "seen_before v (None # xs) = seen_before v xs"
  by simp

lemma seen_before_same: "seen_before v (Some v # xs) = {}"
  by simp

lemma seen_before_other: "u \<noteq> v \<Longrightarrow> seen_before v (Some u # xs) = insert u (seen_before v xs)"
  by auto

lemma factorize_loop_code:
  assumes "distinct seen" "i < length xs" "xs ! i = Some v"
  shows "factorize_loop seen xs ! i =
    (if v \<in> set seen then int (index_of v seen)
     else int (length seen + card (seen_before v xs - set seen)))"
  using assms
proof (induction seen xs arbitrary: i rule: factorize_loop.induct)
  case (1 seen)
  then show ?case by simp
next
  case (2 seen xs)
  then obtain j where i: "i = Suc j"
    by (cases i) auto
  with 2 have "factorize_loop seen xs ! j =
    (if v \<in> set seen then int (index_of v seen)
     else int (length seen + card (seen_before v xs - set seen)))"
    by simp
  with i show ?case
    by (simp only: factorize_loop.simps nth_Cons_Suc seen_before_None)
next
  case (3 seen x xs)
  show ?case
  proof (cases i)
    case 0
    with 3 have "x = v" by simp
    then show ?thesis
      using 0 by (simp add: seen_before_same)
  next
    case (Suc j)
    with "3.prems" have j: "j < length xs" "xs ! j = Some v"
      by simp_all
    show ?thesis
    proof (cases "x \<in> set seen")
      case True
      then have "factorize_loop seen xs ! j =
        (if v \<in> set seen then int (index_of v seen)
         else int (length seen + card (seen_before v xs - set seen)))"
        using "3.IH"(1) "3.prems"(1) j by simp
      moreover have "seen_before v (Some x # xs) - set seen = seen_before v xs - set seen"
        if "v \<notin> set seen"
      proof -
        from that True have "x \<noteq> v" by auto
        then have "seen_before v (Some x # xs) = insert x (seen_before v xs)"
          by (rule seen_before_other)
        with True show ?thesis by auto
      qed
      ultimately show ?thesis
        using True Suc by simp
    next
      case False
      with "3.prems"(1) have "distinct (seen @ [x])"
        by simp
      with False have IH: "factorize_loop (seen @ [x]) xs ! j =
        (if v \<in> set (seen @ [x]) then int (index_of v (seen @ [x]))
         else int (length (seen @ [x]) + card (seen_before v xs - set (seen @ [x]))))"
        using "3.IH"(2) j by simp
      have head: "factorize_loop seen (Some x # xs) ! i = factorize_loop (seen @ [x]) xs ! j"
        using False Suc by simp
      show ?thesis
      proof (cases "v \<in> set seen")
        case True
        with IH head show ?thesis
          by (simp add: index_of_append)
      next
        case vnew: False
        show ?thesis
        proof (cases "v = x")
          case True
          with IH head vnew show ?thesis
            by (simp add: index_of_new seen_before_same)
        next
          case False
          then have sb: "seen_before v (Some x # xs) = insert x (seen_before v xs)"
            by (intro seen_before_other) simp
          have "seen_before v (Some x # xs) - set seen
              = insert x (seen_before v xs - set (seen @ [x]))"
            using \<open>x \<notin> set seen\<close> unfolding sb by auto
          moreover have "x \<notin> seen_before v xs - set (seen @ [x])"
            by simp
          moreover have "finite (seen_before v xs - set (seen @ [x]))"
            by simp
          ultimately have "card (seen_before v (Some x # xs) - set seen)
              = Suc (card (seen_before v xs - set (seen @ [x])))"
            by (metis card_insert_disjoint)
          with IH head vnew False show ?thesis
            by simp
        qed
      qed
    qed
  qed
qed

lemma factorize_loop_missing:
  "i < length xs \<Longrightarrow> xs ! i = None \<Longrightarrow> factorize_loop seen xs ! i = - 1"
proof (induction seen xs arbitrary: i rule: factorize_loop.induct)
  case (1 seen)
  then show ?case by simp
next
  case (2 seen xs)
  then show ?case by (cases i) simp_all
next
  case (3 seen x xs)
  then show ?case by (cases i) (simp_all split: if_splits)
qed

text \<open>
  The code of a cell: -1 for a missing cell, and for a value the number of distinct values
  that were seen before it first appeared. So the first distinct value has code 0, the
  next new one code 1, and so on.
\<close>

lemma factorize_code:
  assumes "i < length xs"
  shows "factorize xs ! i =
    (case xs ! i of None \<Rightarrow> - 1 | Some v \<Rightarrow> int (card (seen_before v xs)))"
proof (cases "xs ! i")
  case None
  with assms show ?thesis
    by (simp add: factorize_def factorize_loop_missing)
next
  case (Some v)
  with assms have "factorize_loop [] xs ! i = int (card (seen_before v xs))"
    using factorize_loop_code [of "[]" i xs v] by simp
  with Some show ?thesis
    by (simp add: factorize_def)
qed

lemma report_target_encoded:
  assumes "get_col df t = Inr tc" "snd (bias_analysis df s t) = Inr r"
  shows "target_encoded r = (\<not> is_numeric_dtype tc)"
proof -
  from assms have
    "analyse_frame (fst (encode_target df t tc)) s t (snd (encode_target df t tc)) = Inr r"
    by (simp add: snd_bias_analysis)
  then show ?thesis
    by (auto simp: snd_encode_target elim!: analyse_frame_Inr)
qed

text \<open>
  Claim C8. On every valid input whose target column is not numeric the call reports
  \<^verbatim>\<open>target_encoded\<close> true and puts integer codes in the place of
  the target values: each value gets the number of distinct values seen before its first
  appearance (0 for the first distinct value, 1 for the next new one, and so on), and a
  missing cell gets -1. On every valid input whose target column is numeric the frame is
  left as it is and \<^verbatim>\<open>target_encoded\<close> is false.
\<close>

theorem target_encoding:
  assumes "sensitive \<noteq> target"
    and "get_col df sensitive = Inr sc" and "get_col df target = Inr tc"
    and "present (keys_of sc) \<noteq> []"
  shows "\<exists>r. snd (bias_analysis df sensitive target) = Inr r
           \<and> (case tc of
                Numeric vs \<Rightarrow>
                  \<not> target_encoded r \<and> fst (bias_analysis df sensitive target) = df
              | Object vs \<Rightarrow>
                  target_encoded r
                  \<and> (\<exists>codes. get_col (fst (bias_analysis df sensitive target)) target
                               = Inr (Numeric codes)
                       \<and> length codes = length vs
                       \<and> (\<forall>i<length vs. codes ! i =
                            (case vs ! i of
                               None \<Rightarrow> Some (Fin (- 1))
                             | Some v \<Rightarrow> Some (Fin (of_nat (card (seen_before v vs))))))))"
proof -
  obtain r where r: "snd (bias_analysis df sensitive target) = Inr r"
    using assms bias_analysis_succeeds by blast
  have enc: "target_encoded r = (\<not> is_numeric_dtype tc)"
    using assms(3) r by (rule report_target_encoded)
  show ?thesis
  proof (cases tc)
    case (Numeric vs)
    with assms(3) have "fst (bias_analysis df sensitive target) = df"
      by (simp add: fst_bias_analysis fst_encode_target)
    with r enc Numeric show ?thesis by simp
  next
    case (Object vs)
    let ?codes = "map (\<lambda>c. Some (Fin (of_int c))) (factorize vs)"
    from assms(3) Object
    have col: "get_col (fst (bias_analysis df sensitive target)) target = Inr (Numeric ?codes)"
      by (simp add: fst_bias_analysis fst_encode_target get_col_set_col_same codes_column_def)
    have len: "length ?codes = length vs"
      by (simp add: length_factorize)
    have code: "?codes ! i =
        (case vs ! i of None \<Rightarrow> Some (Fin (- 1)) | Some v \<Rightarrow> Some (Fin (of_nat (card (seen_before v vs)))))"
      if "i < length vs" for i
      using that by (simp add: length_factorize factorize_code split: option.splits)
    from col len code have
      "\<exists>codes. get_col (fst (bias_analysis df sensitive target)) target = Inr (Numeric codes)
         \<and> length codes = length vs
         \<and> (\<forall>i<length vs. codes ! i =
              (case vs ! i of
                 None \<Rightarrow> Some (Fin (- 1))
               | Some v \<Rightarrow> Some (Fin (of_nat (card (seen_before v vs))))))"
      by blast
    with r enc Object show ?thesis by simp
  qed
qed

theorem target_encoding_witness:
  "(\<exists>r. snd (bias_analysis frame_text ''group'' ''label'') = Inr r \<and> target_encoded r)
   \<and> get_col (fst (bias_analysis frame_text ''group'' ''label'')) ''label''
       = Inr (Numeric [Some (Fin 0), Some (Fin 1), Some (Fin 0)])
   \<and> (\<exists>r. snd (bias_analysis frame_numeric ''group'' ''label'') = Inr r \<and> \<not> target_encoded r)
   \<and> fst (bias_analysis frame_numeric ''group'' ''label'') = frame_numeric"
proof -
  have "get_col (fst (bias_analysis frame_text ''group'' ''label'')) ''label''
      = Inr (Numeric [Some (Fin 0), Some (Fin 1), Some (Fin 0)])"
    by (simp add: fst_bias_analysis fst_encode_target get_col_def set_col_def codes_column_def
        factorize_def)
  then show ?thesis
    using target_encoding [of "''group''" "''label''" frame_text
        "Object [Some ''a'', Some ''b'', Some ''a'']"
        "Object [Some ''yes'', Some ''no'', Some ''yes'']"]
      target_encoding [of "''group''" "''label''" frame_numeric
        "Object [Some ''a'', Some ''a'', Some ''b'', Some ''b'']"
        "Numeric [Some (Fin 1), Some (Fin 0), Some (Fin 1), Some (Fin 1)]"]
    by (auto simp: get_col_def)
qed

section \<open>The spread of the group means\<close>

lemma length_present: "length (present xs) \<le> length xs"
  by (induction xs rule: present.induct) auto

lemma report_label_dist:
  assumes "s \<noteq> t" "get_col df s = Inr sc" "snd (bias_analysis df s t) = Inr r"
  shows "\<exists>vs. get_col (fst (bias_analysis df s t)) t = Inr (Numeric vs)
           \<and> label_dist r =
               map (\<lambda>k. (k, mean (group_cells (labelled_rows (keys_of sc) vs) k)))
                 (sort_key key_ord (uniques (map fst (labelled_rows (keys_of sc) vs))))"
proof -
  from assms(3) obtain tc where tc: "get_col df t = Inr tc"
    by (cases "get_col df t") (auto simp: snd_bias_analysis)
  let ?df1 = "fst (encode_target df t tc)"
  from assms(3) tc have run: "analyse_frame ?df1 s t (snd (encode_target df t tc)) = Inr r"
    by (simp add: snd_bias_analysis)
  from tc have after: "fst (bias_analysis df s t) = ?df1"
    by (simp add: fst_bias_analysis)
  from assms(1,2) have "get_col ?df1 s = Inr sc"
    by (simp add: encoded_other_column)
  with run obtain vs where "get_col ?df1 t = Inr (Numeric vs)"
    and "groupby_mean sc (Numeric vs) = Inr (label_dist r)"
    by (auto elim!: analyse_frame_Inr)
  then show ?thesis
    unfolding after by (auto simp: groupby_mean_numeric)
qed

lemma Max_Min_same:
  fixes S :: "'a::linorder set"
  assumes "finite S" "S \<noteq> {}"
  shows "Max S = c \<and> Min S = c \<longleftrightarrow> S = {c}"
proof
  assume mm: "Max S = c \<and> Min S = c"
  have "x = c" if "x \<in> S" for x
  proof -
    from that assms(1) have "Min S \<le> x" "x \<le> Max S"
      by simp_all
    with mm show ?thesis by simp
  qed
  with assms(2) show "S = {c}" by auto
next
  assume "S = {c}"
  then show "Max S = c \<and> Min S = c" by simp
qed

text \<open>The difference of two floats that are numbers, the first at least the second.\<close>

lemma fsub_ordered_None:
  "b \<le> a \<Longrightarrow>
     fsub (Some a) (Some b) = None \<longleftrightarrow> a = PInf \<and> b = PInf \<or> a = NInf \<and> b = NInf"
  by (cases a; cases b) simp_all

lemma fsub_ordered_Some:
  assumes "b \<le> a" "fsub (Some a) (Some b) = Some x"
  shows "Fin 0 \<le> x"
proof (cases a)
  case NInf
  with assms show ?thesis by (cases b) simp_all
next
  case PInf
  with assms show ?thesis by (cases b) auto
next
  case (Fin p)
  show ?thesis
  proof (cases b)
    case NInf
    with Fin assms show ?thesis by auto
  next
    case PInf
    with Fin assms show ?thesis by simp
  next
    case (Fin q)
    with \<open>a = Fin p\<close> assms have "q \<le> p" and x: "x = round_range (p - q)"
      by simp_all
    then have "\<not> p - q \<le> - overflow_limit"
      using overflow_limit_pos by simp
    with \<open>q \<le> p\<close> show ?thesis
      unfolding x by (simp add: round_range_def)
  qed
qed

lemma fsub_finite:
  "x - y < overflow_limit \<Longrightarrow> y \<le> x \<Longrightarrow>
     fsub (Some (Fin x)) (Some (Fin y)) = Some (Fin (x - y))"
  using overflow_limit_pos by (simp add: round_range_def)

text \<open>
  Claim C9, as stated, fails on the code. It says that the statistical parity difference is
  the greatest group mean less the least, and never below 0. The mean of a group whose
  target cells are all missing is NaN; when that is so for every group, the greatest and
  the least are NaN and so is their difference, which is not a number at or above 0.
\<close>

theorem parity_difference_counterexample:
  "\<exists>r. snd (bias_analysis frame_no_outcome ''group'' ''label'') = Inr r
     \<and> label_dist r = [(KStr ''a'', None), (KStr ''b'', None)]
     \<and> spd r = None
     \<and> \<not> (\<exists>x. spd r = Some x \<and> Fin 0 \<le> x)"
  by (simp add: run_defs)

text \<open>
  Claim C9, amended to what the code does: on every valid input the call returns a report,
  and with the greatest and the least taken over the group means that are numbers: when
  there is such a mean, and these means are not all plus infinity and not all minus
  infinity (so whenever they are all finite), the statistical parity difference is the
  float difference of the greatest and the least, and it is a number at or above 0; it is
  the difference of the two as numbers when both are finite and that difference is in
  range, and plus infinity otherwise. When no group mean is a number, or the means that
  are numbers are all plus infinity or all minus infinity, it is NaN. (A group mean is
  infinite when the group has an infinite target cell or its sum overflows, and NaN when
  every target cell of the group is missing.)
\<close>

theorem parity_difference:
  assumes "sensitive \<noteq> target"
    and "get_col df sensitive = Inr sc" and "get_col df target = Inr tc"
    and "present (keys_of sc) \<noteq> []"
  shows "\<exists>r. snd (bias_analysis df sensitive target) = Inr r
           \<and> (let means = present (map snd (label_dist r))
              in if means = [] \<or> set means = {PInf} \<or> set means = {NInf}
                 then spd r = None
                 else spd r = fsub (Some (Max (set means))) (Some (Min (set means)))
                    \<and> (\<exists>x. spd r = Some x \<and> Fin 0 \<le> x)
                    \<and> (\<forall>M m. Max (set means) = Fin M \<and> Min (set means) = Fin m
                               \<and> M - m < overflow_limit
                             \<longrightarrow> spd r = Some (Fin (M - m)) \<and> 0 \<le> M - m))"
proof -
  obtain r where r: "snd (bias_analysis df sensitive target) = Inr r"
    using assms bias_analysis_succeeds by blast
  let ?means = "present (map snd (label_dist r))"
  let ?M = "Max (set ?means)" and ?m = "Min (set ?means)"
  have spd: "spd r = (if ?means = [] then None else fsub (Some ?M) (Some ?m))"
    by (simp add: report_fields(3) [OF r] series_max_eq series_min_eq)
  show ?thesis
  proof (cases "?means = []")
    case True
    with r spd show ?thesis by (simp add: Let_def)
  next
    case False
    then have le: "?m \<le> ?M"
      by (rule Min_le_Max_list)
    from False have same: "?M = c \<and> ?m = c \<longleftrightarrow> set ?means = {c}" for c
      by (intro Max_Min_same) simp_all
    have nan: "spd r = None \<longleftrightarrow> set ?means = {PInf} \<or> set ?means = {NInf}"
      using False spd fsub_ordered_None [OF le] same by simp
    have pos: "\<exists>x. spd r = Some x \<and> Fin 0 \<le> x" if "spd r \<noteq> None"
    proof -
      from that obtain x where x: "spd r = Some x" by auto
      with False spd have "fsub (Some ?M) (Some ?m) = Some x" by simp
      with le have "Fin 0 \<le> x" by (rule fsub_ordered_Some)
      with x show ?thesis by simp
    qed
    have fin: "spd r = Some (Fin (M - m)) \<and> 0 \<le> M - m"
      if "?M = Fin M" "?m = Fin m" "M - m < overflow_limit" for M m
    proof -
      from le that(1,2) have "m \<le> M" by simp
      with that(3) have "fsub (Some (Fin M)) (Some (Fin m)) = Some (Fin (M - m))"
        by (rule fsub_finite)
      moreover from False spd that(1,2) have "spd r = fsub (Some (Fin M)) (Some (Fin m))"
        by (simp del: fsub.simps)
      ultimately show ?thesis
        using \<open>m \<le> M\<close> by simp
    qed
    show ?thesis
    proof (cases "set ?means = {PInf} \<or> set ?means = {NInf}")
      case True
      with nan r show ?thesis by (simp add: Let_def)
    next
      case other: False
      with nan have "spd r \<noteq> None" by simp
      with pos fin False other spd r show ?thesis
        by (simp add: Let_def)
    qed
  qed
qed

theorem parity_difference_witness:
  "(\<exists>r. snd (bias_analysis frame_numeric ''group'' ''label'') = Inr r
      \<and> label_dist r = [(KStr ''a'', Some (Fin (1 / 2))), (KStr ''b'', Some (Fin 1))]
      \<and> spd r = Some (Fin (1 / 2)))
   \<and> (\<exists>r. snd (bias_analysis frame_no_outcome ''group'' ''label'') = Inr r \<and> spd r = None)
   \<and> (\<exists>r. snd (bias_analysis frame_infinite ''group'' ''label'') = Inr r
      \<and> label_dist r = [(KStr ''a'', Some PInf), (KStr ''b'', Some PInf)]
      \<and> spd r = None)"
proof -
  have "snd (bias_analysis frame_numeric ''group'' ''label'') =
    Inr \<lparr>target_encoded = False, rows = 4, columns = 2,
          rep = [(KStr ''a'', 1 / 2), (KStr ''b'', 1 / 2)],
          label_dist = [(KStr ''a'', Some (Fin (1 / 2))), (KStr ''b'', Some (Fin 1))],
          rep_issue = False, label_issue = True, fairness_issue = True,
          traffic = ''red'', dominant_group = KStr ''a'',
          dominant_ratio = Some (Fin (1 / 2)), spd = Some (Fin (1 / 2)),
          di = Some (Fin (1 / 2))\<rparr>"
    and "snd (bias_analysis frame_no_outcome ''group'' ''label'') =
    Inr \<lparr>target_encoded = False, rows = 2, columns = 2,
          rep = [(KStr ''a'', 1 / 2), (KStr ''b'', 1 / 2)],
          label_dist = [(KStr ''a'', None), (KStr ''b'', None)],
          rep_issue = False, label_issue = False, fairness_issue = False,
          traffic = ''green'', dominant_group = KStr ''a'',
          dominant_ratio = Some (Fin (1 / 2)), spd = None, di = Some (Fin 1)\<rparr>"
    and "snd (bias_analysis frame_infinite ''group'' ''label'') =
    Inr \<lparr>target_encoded = False, rows = 2, columns = 2,
          rep = [(KStr ''a'', 1 / 2), (KStr ''b'', 1 / 2)],
          label_dist = [(KStr ''a'', Some PInf), (KStr ''b'', Some PInf)],
          rep_issue = False, label_issue = False, fairness_issue = False,
          traffic = ''green'', dominant_group = KStr ''a'',
          dominant_ratio = Some (Fin (1 / 2)), spd = None, di = None\<rparr>"
    by (simp_all add: run_defs)
  then show ?thesis
    using parity_difference [of "''group''" "''label''" frame_numeric
        "Object [Some ''a'', Some ''a'', Some ''b'', Some ''b'']"
        "Numeric [Some (Fin 1), Some (Fin 0), Some (Fin 1), Some (Fin 1)]"]
      parity_difference [of "''group''" "''label''" frame_no_outcome
        "Object [Some ''a'', Some ''b'']" "Numeric [None, None]"]
      parity_difference [of "''group''" "''label''" frame_infinite
        "Object [Some ''a'', Some ''b'']" "Numeric [Some PInf, Some PInf]"]
    by (simp add: get_col_def)
qed

section \<open>A sensitive column with one value\<close>

lemma distinct_singleton: "distinct xs \<Longrightarrow> set xs = {k} \<Longrightarrow> xs = [k]"
proof (cases xs)
  case Nil
  assume "set xs = {k}"
  with Nil show ?thesis by simp
next
  case (Cons x ys)
  assume d: "distinct xs" and s: "set xs = {k}"
  with Cons have "x = k" "set ys \<subseteq> {k}" "k \<notin> set ys"
    by auto
  then have "ys = []"
    by (cases ys) auto
  with Cons \<open>x = k\<close> show ?thesis by simp
qed

lemma distinct_at_most_one: "distinct xs \<Longrightarrow> set xs \<subseteq> {k} \<Longrightarrow> xs = [] \<or> xs = [k]"
proof (cases "xs = []")
  case True
  then show ?thesis by simp
next
  case False
  assume "distinct xs" "set xs \<subseteq> {k}"
  moreover from False \<open>set xs \<subseteq> {k}\<close> have "set xs = {k}"
    by (cases xs) auto
  ultimately show ?thesis
    by (simp add: distinct_singleton)
qed

lemma count_list_all: "set xs \<subseteq> {k} \<Longrightarrow> count_list xs k = length xs"
  by (induction xs) auto

lemma value_counts_one_group:
  assumes "set (present ks) = {k}"
  shows "value_counts ks = [(k, 1)]"
proof -
  have "uniques (present ks) = [k]"
    using assms by (intro distinct_singleton) (simp_all add: distinct_uniques set_uniques)
  moreover have "count_list (present ks) k = length (present ks)"
    using assms by (intro count_list_all) simp
  moreover from assms have "present ks \<noteq> []"
    by auto
  ultimately show ?thesis
    by (simp add: value_counts_def)
qed

lemma labelled_rows_keys: "set (map fst (labelled_rows ks vs)) \<subseteq> set (present ks)"
  by (induction ks vs rule: labelled_rows.induct) auto

lemma group_means_one_group:
  assumes "set (present ks) = {k}"
  shows "length (present (map snd (map (\<lambda>k. (k, mean (group_cells (labelled_rows ks vs) k)))
            (sort_key key_ord (uniques (map fst (labelled_rows ks vs))))))) \<le> 1"
proof -
  let ?labels = "uniques (map fst (labelled_rows ks vs))"
  have "distinct ?labels"
    by (rule distinct_uniques)
  moreover have "set ?labels \<subseteq> {k}"
    using labelled_rows_keys [of ks vs] assms by (simp add: set_uniques)
  ultimately have "?labels = [] \<or> ?labels = [k]"
    by (rule distinct_at_most_one)
  then have "length ?labels \<le> 1"
    by auto
  moreover have
    "length (present (map snd (map (\<lambda>k. (k, mean (group_cells (labelled_rows ks vs) k)))
        (sort_key key_ord ?labels))))
       \<le> length (map snd (map (\<lambda>k. (k, mean (group_cells (labelled_rows ks vs) k)))
        (sort_key key_ord ?labels)))"
    by (rule length_present)
  ultimately show ?thesis
    by simp
qed

text \<open>
  Claim C10, as stated, fails on the code. It says that with one distinct value in the
  sensitive column the statistical parity difference is 0. When every target cell of the
  group is missing the mean of the group is NaN, and so is the difference.
\<close>

theorem one_group_counterexample:
  "\<exists>r. snd (bias_analysis frame_one_group_no_outcome ''group'' ''label'') = Inr r
     \<and> rep r = [(KStr ''a'', 1)]
     \<and> label_dist r = [(KStr ''a'', None)]
     \<and> spd r = None \<and> spd r \<noteq> Some (Fin 0)"
  by (simp add: run_defs)

text \<open>
  Claim C10, amended to what the code does: on every valid input whose sensitive column
  has one distinct value the call returns a report with that value as the dominant group
  at ratio 1, the representation flag set, the label flag and the fairness flag clear, and
  so the colour yellow (MODERATE). There is at most one group mean. When it is a finite
  number, the statistical parity difference is 0 and the disparate impact ratio is 1. When
  it is NaN (every target cell of the group is missing, or the group has infinite cells of
  both signs) or minus infinity, the difference is NaN and the ratio is 1. When it is plus
  infinity (an infinite target cell, or a sum that overflows), both are NaN.
\<close>

theorem one_group:
  assumes "sensitive \<noteq> target"
    and "get_col df sensitive = Inr sc" and "get_col df target = Inr tc"
    and "set (present (keys_of sc)) = {k}"
  shows "\<exists>r. snd (bias_analysis df sensitive target) = Inr r
           \<and> rep r = [(k, 1)] \<and> dominant_group r = k \<and> dominant_ratio r = Some (Fin 1)
           \<and> rep_issue r \<and> \<not> label_issue r \<and> \<not> fairness_issue r
           \<and> traffic r = ''yellow'' \<and> risk_level r = MODERATE
           \<and> (case present (map snd (label_dist r)) of
                [] \<Rightarrow> spd r = None \<and> di r = Some (Fin 1)
              | m # ms \<Rightarrow>
                  ms = []
                  \<and> (case m of
                       Fin x \<Rightarrow> spd r = Some (Fin 0) \<and> di r = Some (Fin 1)
                     | PInf \<Rightarrow> spd r = None \<and> di r = None
                     | NInf \<Rightarrow> spd r = None \<and> di r = Some (Fin 1)))"
proof -
  from assms(4) have some: "present (keys_of sc) \<noteq> []"
    by auto
  obtain r where r: "snd (bias_analysis df sensitive target) = Inr r"
    using assms(1-3) some bias_analysis_succeeds by blast
  have vc: "value_counts (keys_of sc) = [(k, 1)]"
    using assms(4) by (rule value_counts_one_group)
  have rep: "rep r = [(k, 1)]"
    using report_rep(1) [OF assms(1,2) r] vc by simp
  have dom: "dominant_group r = k"
    using report_rep(2) [OF assms(1,2) r] vc by simp
  have ratio: "dominant_ratio r = Some (Fin 1)"
    by (simp add: report_fields(1) [OF r] rep series_max_def)
  have rep_i: "rep_issue r"
    by (simp add: report_fields(2) [OF r] ratio less_ext_def)
  let ?means = "present (map snd (label_dist r))"
  obtain vs where "label_dist r =
      map (\<lambda>k. (k, mean (group_cells (labelled_rows (keys_of sc) vs) k)))
        (sort_key key_ord (uniques (map fst (labelled_rows (keys_of sc) vs))))"
    using report_label_dist [OF assms(1,2) r] by blast
  then have "length ?means \<le> 1"
    using group_means_one_group [OF assms(4)] by simp
  then consider "?means = []" | m where "?means = [m]"
    by (cases ?means) (auto simp: Suc_le_eq)
  then have fields: "(case ?means of
        [] \<Rightarrow> spd r = None \<and> di r = Some (Fin 1)
      | m # ms \<Rightarrow>
          ms = []
          \<and> (case m of
               Fin x \<Rightarrow> spd r = Some (Fin 0) \<and> di r = Some (Fin 1)
             | PInf \<Rightarrow> spd r = None \<and> di r = None
             | NInf \<Rightarrow> spd r = None \<and> di r = Some (Fin 1)))
      \<and> \<not> fgt (spd r) (2 / 10) \<and> \<not> fgt (spd r) (1 / 10) \<and> \<not> flt (di r) (8 / 10)"
  proof cases
    case 1
    then show ?thesis
      by (simp add: report_fields(3,5) [OF r] series_max_def series_min_def less_ext_def)
  next
    case (2 m)
    have zero: "round_range 0 = Fin 0" and one: "round_range 1 = Fin 1"
      using overflow_limit_pos by (simp_all add: round_range_def overflow_limit_def)
    show ?thesis
    proof (cases m)
      case NInf
      with 2 show ?thesis
        by (simp add: report_fields(3,5) [OF r] series_max_def series_min_def less_ext_def)
    next
      case PInf
      with 2 show ?thesis
        by (simp add: report_fields(3,5) [OF r] series_max_def series_min_def less_ext_def)
    next
      case (Fin x)
      with 2 zero one show ?thesis
        by (simp add: report_fields(3,5) [OF r] series_max_def series_min_def less_ext_def)
    qed
  qed
  then have label_i: "\<not> label_issue r"
    by (simp add: report_fields(4) [OF r])
  from fields have fair_i: "\<not> fairness_issue r"
    by (simp add: report_fields(6) [OF r])
  have colour: "traffic r = ''yellow''"
    using rep_i label_i fair_i
    by (simp add: report_fields(7) [OF r] issues_count_def traffic_of_def)
  then have "risk_level r = MODERATE"
    by (simp add: risk_level_def)
  with r rep dom ratio rep_i label_i fair_i fields colour show ?thesis
    by simp
qed

theorem one_group_witness:
  "(\<exists>r. snd (bias_analysis frame_one_group ''group'' ''label'') = Inr r
      \<and> rep r = [(KStr ''a'', 1)] \<and> label_dist r = [(KStr ''a'', Some (Fin (1 / 2)))]
      \<and> spd r = Some (Fin 0) \<and> di r = Some (Fin 1) \<and> risk_level r = MODERATE)
   \<and> (\<exists>r. snd (bias_analysis frame_one_group_no_outcome ''group'' ''label'') = Inr r
      \<and> label_dist r = [(KStr ''a'', None)]
      \<and> spd r = None \<and> di r = Some (Fin 1) \<and> risk_level r = MODERATE)
   \<and> (\<exists>r. snd (bias_analysis frame_one_group_overflow ''group'' ''label'') = Inr r
      \<and> label_dist r = [(KStr ''a'', Some PInf)]
      \<and> spd r = None \<and> di r = None \<and> risk_level r = MODERATE)"
proof -
  have "snd (bias_analysis frame_one_group ''group'' ''label'') =
    Inr \<lparr>target_encoded = False, rows = 2, columns = 2,
          rep = [(KStr ''a'', 1)],
          label_dist = [(KStr ''a'', Some (Fin (1 / 2)))],
          rep_issue = True, label_issue = False, fairness_issue = False,
          traffic = ''yellow'', dominant_group = KStr ''a'',
          dominant_ratio = Some (Fin 1), spd = Some (Fin 0), di = Some (Fin 1)\<rparr>"
    and "snd (bias_analysis frame_one_group_no_outcome ''group'' ''label'') =
    Inr \<lparr>target_encoded = False, rows = 2, columns = 2,
          rep = [(KStr ''a'', 1)],
          label_dist = [(KStr ''a'', None)],
          rep_issue = True, label_issue = False, fairness_issue = False,
          traffic = ''yellow'', dominant_group = KStr ''a'',
          dominant_ratio = Some (Fin 1), spd = None, di = Some (Fin 1)\<rparr>"
    and "snd (bias_analysis frame_one_group_overflow ''group'' ''label'') =
    Inr \<lparr>target_encoded = False, rows = 2, columns = 2,
          rep = [(KStr ''a'', 1)],
          label_dist = [(KStr ''a'', Some PInf)],
          rep_issue = True, label_issue = False, fairness_issue = False,
          traffic = ''yellow'', dominant_group = KStr ''a'',
          dominant_ratio = Some (Fin 1), spd = None, di = None\<rparr>"
    by (simp_all add: run_defs)
  then show ?thesis
    using one_group [of "''group''" "''label''" frame_one_group
        "Object [Some ''a'', Some ''a'']" "Numeric [Some (Fin 1), Some (Fin 0)]" "KStr ''a''"]
      one_group [of "''group''" "''label''" frame_one_group_no_outcome
        "Object [Some ''a'', Some ''a'']" "Numeric [None, None]" "KStr ''a''"]
      one_group [of "''group''" "''label''" frame_one_group_overflow
        "Object [Some ''a'', Some ''a'']"
        "Numeric [Some (Fin (10 ^ 308)), Some (Fin (10 ^ 308))]" "KStr ''a''"]
    by (simp add: get_col_def risk_level_def)
qed

end
